theory Spec2Isabelle
  imports Complex_Main "HOL-Library.Word"
begin

section \<open>The TIFF directory parser of OpenSlide (openslide-decode-tifflike.c)\<close>

text \<open>
  A shallow embedding of the generic TIFF and BigTIFF directory reader: the header check
  and the directory walk of \<open>_openslide_tifflike_create\<close>, the entry decoder
  (\<open>read_directory\<close>, \<open>read_tiff_value\<close>, \<open>read_uint\<close>, \<open>fix_byte_order\<close>), the typed
  accessors and the size check of \<open>hash_tiff_level\<close>.

  Conventions of the embedding:
  \<^item> a C \<open>uint16_t\<close>, \<open>uint32_t\<close> or \<open>uint64_t\<close> is a \<open>16 word\<close>, \<open>32 word\<close> or \<open>64 word\<close>;
    an \<open>int64_t\<close> that the code only compares is an \<open>int\<close> obtained with \<open>sint\<close>, and one
    that the code adds to stays a \<open>64 word\<close>;
  \<^item> memory buffers are byte lists in the byte order of the machine that runs the code;
    that byte order and the outcome of \<open>g_try_malloc\<close> are the two fields of \<open>host\<close>;
  \<^item> a \<open>FILE\<close> is its contents, its position and the largest offset it can be moved to;
  \<^item> a \<open>GError\<close> is a value \<open>Error kind format arguments\<close>, and a function that can fail
    returns a sum whose left summand is the error.
\<close>

subsection \<open>The host and the stream\<close>

type_synonym byte = "8 word"

record host =
  host_big_endian :: bool
  try_malloc :: "int \<Rightarrow> bool"

text \<open>
  The stream is a regular file opened for reading. \<open>fseeko\<close> with \<open>SEEK_SET\<close> fails on a
  negative offset and on an offset beyond the largest one the file system of the file
  supports (\<open>seek_limit\<close>; \<open>EINVAL\<close>), and leaves the position alone then. Otherwise it
  moves the position, also beyond the end of the file. \<open>fread\<close> of one item of \<open>n\<close> bytes
  succeeds when \<open>n\<close> bytes are left at the position, and otherwise consumes what is left and
  reports zero items.
\<close>

record stream =
  content :: "byte list"
  pos :: nat
  seek_limit :: nat

definition fseeko :: "stream \<Rightarrow> int \<Rightarrow> bool \<times> stream" where
  "fseeko f off =
     (if off < 0 \<or> off > int (seek_limit f) then (False, f) else (True, f\<lparr>pos := nat off\<rparr>))"

definition ftello :: "stream \<Rightarrow> int" where
  "ftello f = int (pos f)"

definition fread :: "stream \<Rightarrow> nat \<Rightarrow> byte list option \<times> stream" where
  "fread f n =
     (if n = 0 then (None, f)
      else if pos f + n \<le> length (content f)
      then (Some (take n (drop (pos f) (content f))), f\<lparr>pos := pos f + n\<rparr>)
      else (None, f\<lparr>pos := max (pos f) (length (content f))\<rparr>))"

subsection \<open>Errors\<close>

datatype error_kind = IO_ERROR | FORMAT_NOT_SUPPORTED | BAD_DATA

datatype error = Error error_kind string "int list"

subsection \<open>Integers in memory\<close>

text \<open>The number a byte list denotes, least significant byte first.\<close>

fun le_nat :: "byte list \<Rightarrow> nat" where
  "le_nat [] = 0"
| "le_nat (b # bs) = unat b + 256 * le_nat bs"

text \<open>\<open>memcpy\<close> of a buffer into an unsigned integer of the same size, on the host.\<close>

definition load_native :: "host \<Rightarrow> byte list \<Rightarrow> nat" where
  "load_native h bs = (if host_big_endian h then le_nat (rev bs) else le_nat bs)"

text \<open>
  GLib's \<open>GUINTn_FROM_BE\<close> and \<open>GUINTn_FROM_LE\<close>, on the bytes of one integer: a byte swap
  when the named order is not the host's.
\<close>

definition GUINT_FROM_BE :: "host \<Rightarrow> byte list \<Rightarrow> byte list" where
  "GUINT_FROM_BE h bs = (if host_big_endian h then bs else rev bs)"

definition GUINT_FROM_LE :: "host \<Rightarrow> byte list \<Rightarrow> byte list" where
  "GUINT_FROM_LE h bs = (if host_big_endian h then rev bs else bs)"

text \<open>The loop \<open>for (i = 0; i < count; i++) arr[i] = ...\<close> over elements of \<open>size\<close> bytes.\<close>

primrec fix_elems :: "host \<Rightarrow> nat \<Rightarrow> bool \<Rightarrow> nat \<Rightarrow> byte list \<Rightarrow> byte list" where
  "fix_elems h sz big_endian 0 data = data"
| "fix_elems h sz big_endian (Suc n) data =
     (if big_endian then GUINT_FROM_BE h (take sz data) else GUINT_FROM_LE h (take sz data))
     @ fix_elems h sz big_endian n (drop sz data)"

text \<open>
  The \<open>default\<close> branch is \<open>g_assert_not_reached()\<close>: every call in the file passes 1, 2, 4 or
  8 (a literal, or the result of the type switch of \<open>read_directory\<close>). The model leaves the
  data alone there.
\<close>

definition fix_byte_order :: "host \<Rightarrow> byte list \<Rightarrow> int \<Rightarrow> int \<Rightarrow> bool \<Rightarrow> byte list" where
  "fix_byte_order h data sz count big_endian =
     (if sz = 1 then data
      else if sz = 2 \<or> sz = 4 \<or> sz = 8
      then fix_elems h (nat sz) big_endian (nat count) data
      else data)"

text \<open>
  \<open>read_uint\<close> only clears \<open>*ok\<close>: the flag goes in and comes out. The stream comes out as
  well, since the callers read on before they test the flag.
\<close>

definition read_uint :: "host \<Rightarrow> stream \<Rightarrow> int \<Rightarrow> bool \<Rightarrow> bool \<Rightarrow> 64 word \<times> bool \<times> stream" where
  "read_uint h f sz big_endian ok =
     (case fread f (nat sz) of
        (None, f') \<Rightarrow> (0, False, f')
      | (Some buf, f') \<Rightarrow>
          (of_nat (load_native h (fix_byte_order h buf sz 1 big_endian)), ok, f'))"

subsection \<open>Reading one value\<close>

text \<open>\<open>ssize_t\<close> has 64 bits (LP64).\<close>

definition SSIZE_MAX :: int where
  "SSIZE_MAX = 2 ^ 63 - 1"

text \<open>
  \<open>None\<close> is the \<open>NULL\<close> result. \<open>value_len\<close> is \<open>sizeof(value)\<close> at the call. The result of the
  last \<open>fseeko\<close> is not looked at, as in the source.
\<close>

definition read_tiff_value ::
  "host \<Rightarrow> stream \<Rightarrow> int \<Rightarrow> int \<Rightarrow> int \<Rightarrow> byte list \<Rightarrow> int \<Rightarrow> bool \<Rightarrow> (byte list \<times> stream) option" where
  "read_tiff_value h f sz count offset val value_len big_endian =
     (if sz \<le> 0 \<or> count \<le> 0 \<or> count > SSIZE_MAX div sz then None
      else let len = sz * count in
        if \<not> try_malloc h len then None
        else if len \<le> value_len
        then Some (fix_byte_order h (take (nat len) val) sz count big_endian, f)
        else let old_off = ftello f in
          (case fseeko f offset of
             (False, f1) \<Rightarrow> None
           | (True, f1) \<Rightarrow>
               (case fread f1 (nat len) of
                  (None, f2) \<Rightarrow> None
                | (Some result, f2) \<Rightarrow>
                    Some (fix_byte_order h result sz count big_endian,
                          snd (fseeko f2 old_off)))))"

subsection \<open>Constants of tiff.h\<close>

text \<open>
  libtiff's header is not part of the repository. The values are those of its \<open>tiff.h\<close>;
  the source itself gives 43, 16, 17 and 18 for the names an older header lacks.
\<close>

definition TIFF_BIGENDIAN :: nat where "TIFF_BIGENDIAN = 0x4d4d"
definition TIFF_LITTLEENDIAN :: nat where "TIFF_LITTLEENDIAN = 0x4949"
definition TIFF_VERSION_CLASSIC :: "16 word" where "TIFF_VERSION_CLASSIC = 42"
definition TIFF_VERSION_BIG :: "16 word" where "TIFF_VERSION_BIG = 43"

definition TIFF_BYTE :: "16 word" where "TIFF_BYTE = 1"
definition TIFF_ASCII :: "16 word" where "TIFF_ASCII = 2"
definition TIFF_SHORT :: "16 word" where "TIFF_SHORT = 3"
definition TIFF_LONG :: "16 word" where "TIFF_LONG = 4"
definition TIFF_RATIONAL :: "16 word" where "TIFF_RATIONAL = 5"
definition TIFF_SBYTE :: "16 word" where "TIFF_SBYTE = 6"
definition TIFF_UNDEFINED :: "16 word" where "TIFF_UNDEFINED = 7"
definition TIFF_SSHORT :: "16 word" where "TIFF_SSHORT = 8"
definition TIFF_SLONG :: "16 word" where "TIFF_SLONG = 9"
definition TIFF_SRATIONAL :: "16 word" where "TIFF_SRATIONAL = 10"
definition TIFF_FLOAT :: "16 word" where "TIFF_FLOAT = 11"
definition TIFF_DOUBLE :: "16 word" where "TIFF_DOUBLE = 12"
definition TIFF_IFD :: "16 word" where "TIFF_IFD = 13"
definition TIFF_LONG8 :: "16 word" where "TIFF_LONG8 = 16"
definition TIFF_SLONG8 :: "16 word" where "TIFF_SLONG8 = 17"
definition TIFF_IFD8 :: "16 word" where "TIFF_IFD8 = 18"

definition TIFFTAG_STRIPOFFSETS :: int where "TIFFTAG_STRIPOFFSETS = 273"
definition TIFFTAG_STRIPBYTECOUNTS :: int where "TIFFTAG_STRIPBYTECOUNTS = 279"
definition TIFFTAG_TILEOFFSETS :: int where "TIFFTAG_TILEOFFSETS = 324"
definition TIFFTAG_TILEBYTECOUNTS :: int where "TIFFTAG_TILEBYTECOUNTS = 325"

subsection \<open>Directories\<close>

text \<open>
  \<open>struct tiff_item\<close>. The hash table of a directory has the tag as its key, as an integer
  (\<open>GINT_TO_POINTER\<close>, \<open>g_direct_equal\<close>), and \<open>g_hash_table_insert\<close> replaces the item of a
  key that is present.
\<close>

record tiff_item =
  item_type :: "16 word"
  item_count :: int
  item_value :: "byte list"

type_synonym directory = "int \<rightharpoonup> tiff_item"

text \<open>
  The \<open>switch (type)\<close> of \<open>read_directory\<close>: the size of one element and the number of
  elements to read, or \<open>None\<close> in the \<open>default\<close> branch. \<open>count *= 2\<close> is a multiplication
  of \<open>uint64_t\<close>.
\<close>

definition value_size_and_count :: "16 word \<Rightarrow> 64 word \<Rightarrow> (int \<times> 64 word) option" where
  "value_size_and_count type count =
     (if type = TIFF_BYTE \<or> type = TIFF_ASCII \<or> type = TIFF_SBYTE \<or> type = TIFF_UNDEFINED
      then Some (1, count)
      else if type = TIFF_SHORT \<or> type = TIFF_SSHORT
      then Some (2, count)
      else if type = TIFF_LONG \<or> type = TIFF_SLONG \<or> type = TIFF_FLOAT \<or> type = TIFF_IFD
      then Some (4, count)
      else if type = TIFF_RATIONAL \<or> type = TIFF_SRATIONAL
      then Some (4, count * 2)
      else if type = TIFF_DOUBLE \<or> type = TIFF_LONG8 \<or> type = TIFF_SLONG8 \<or> type = TIFF_IFD8
      then Some (8, count)
      else None)"

text \<open>
  The body of the loop over the entries of a directory: the tag and the item of one entry,
  and the stream after it. \<open>ok\<close> is true when the body starts, since the function leaves at
  the first test of \<open>ok\<close> that fails.
\<close>

definition read_directory_entry ::
  "host \<Rightarrow> stream \<Rightarrow> bool \<Rightarrow> bool \<Rightarrow> error + (int \<times> tiff_item \<times> stream)" where
  "read_directory_entry h f bigtiff big_endian =
     (let (tag64, ok1, f1) = read_uint h f 2 big_endian True;
          tag = (ucast tag64 :: 16 word);
          (type64, ok2, f2) = read_uint h f1 2 big_endian ok1;
          type = (ucast type64 :: 16 word);
          (count, ok3, f3) = read_uint h f2 (if bigtiff then 8 else 4) big_endian ok2
      in if \<not> ok3 then Inl (Error BAD_DATA ''Cannot read tag, type, and count'' [])
      else
        (case fread f3 (if bigtiff then 8 else 4) of
           (None, f4) \<Rightarrow> Inl (Error BAD_DATA ''Cannot read value/offset'' [])
         | (Some val, f4) \<Rightarrow>
             (let offset =
                    (if bigtiff
                     then (of_nat (load_native h (fix_byte_order h val 8 1 big_endian)) :: 64 word)
                     else ucast (of_nat (load_native h (fix_byte_order h val 4 1 big_endian))
                                   :: 32 word))
              in case value_size_and_count type count of
                   None \<Rightarrow> Inl (Error BAD_DATA ''Unknown type encountered: %d'' [uint type])
                 | Some (value_size, count') \<Rightarrow>
                     (case read_tiff_value h f4 value_size (sint count') (sint offset)
                             val (int (length val)) big_endian of
                        None \<Rightarrow> Inl (Error BAD_DATA ''Cannot read value'' [])
                      | Some (v, f5) \<Rightarrow>
                          Inr (uint tag,
                               \<lparr>item_type = type, item_count = sint count, item_value = v\<rparr>,
                               f5)))))"

text \<open>The loop itself, with the number of entries still to read.\<close>

fun read_directory_entries ::
  "host \<Rightarrow> bool \<Rightarrow> bool \<Rightarrow> nat \<Rightarrow> stream \<Rightarrow> directory \<Rightarrow> error + (directory \<times> stream)" where
  "read_directory_entries h bigtiff big_endian 0 f result = Inr (result, f)"
| "read_directory_entries h bigtiff big_endian (Suc n) f result =
     (case read_directory_entry h f bigtiff big_endian of
        Inl e \<Rightarrow> Inl e
      | Inr (tag, item, f') \<Rightarrow>
          read_directory_entries h bigtiff big_endian n f' (result(tag \<mapsto> item)))"

text \<open>
  \<open>read_directory\<close>. The offset and the loop detector are passed in and, on success, come
  out with the directory: the next offset (\<open>*diroff\<close>), the stream and the detector with
  the offset added. On failure the caller drops all of them.
\<close>

definition read_directory ::
  "host \<Rightarrow> stream \<Rightarrow> 64 word \<Rightarrow> 64 word set \<Rightarrow> bool \<Rightarrow> bool \<Rightarrow>
     error + (directory \<times> 64 word \<times> stream \<times> 64 word set)" where
  "read_directory h f off loop_detector bigtiff big_endian =
     (if sint off \<le> 0 then Inl (Error BAD_DATA ''Bad offset'' [])
      else if off \<in> loop_detector then Inl (Error BAD_DATA ''Loop detected'' [])
      else
        (let loop_detector' = insert off loop_detector in
         case fseeko f (sint off) of
           (False, f1) \<Rightarrow> Inl (Error IO_ERROR ''Cannot seek to offset'' [])
         | (True, f1) \<Rightarrow>
             (let (dircount, ok, f2) = read_uint h f1 (if bigtiff then 8 else 2) big_endian True
              in if \<not> ok then Inl (Error BAD_DATA ''Cannot read dircount'' [])
              else
                (case read_directory_entries h bigtiff big_endian (unat dircount) f2 Map.empty of
                   Inl e \<Rightarrow> Inl e
                 | Inr (result, f3) \<Rightarrow>
                     (let (nextdiroff, ok', f4) =
                            read_uint h f3 (if bigtiff then 8 else 4) big_endian ok
                      in if \<not> ok'
                         then Inl (Error BAD_DATA ''Cannot read next directory offset'' [])
                         else Inr (result, nextdiroff, f4, loop_detector'))))))"

subsection \<open>Creating the model\<close>

record tifflike =
  directories :: "directory list"

text \<open>
  The first part of \<open>_openslide_tifflike_create\<close>, up to the validation of the header: the
  byte order, whether the file is a BigTIFF, the offset of the first directory and the
  stream after the header.
\<close>

definition tifflike_header :: "host \<Rightarrow> stream \<Rightarrow> error + (bool \<times> bool \<times> 64 word \<times> stream)" where
  "tifflike_header h f =
     (case fread (snd (fseeko f 0)) 2 of
        (None, f1) \<Rightarrow> Inl (Error FORMAT_NOT_SUPPORTED ''Can't read TIFF magic number'' [])
      | (Some magic_bytes, f1) \<Rightarrow>
          (let magic = load_native h magic_bytes in
           if magic \<noteq> TIFF_BIGENDIAN \<and> magic \<noteq> TIFF_LITTLEENDIAN
           then Inl (Error FORMAT_NOT_SUPPORTED ''Unrecognized TIFF magic number'' [])
           else
             (let big_endian = (magic = TIFF_BIGENDIAN);
                  (version64, ok1, f2) = read_uint h f1 2 big_endian True;
                  version = (ucast version64 :: 16 word);
                  bigtiff = (version = TIFF_VERSION_BIG);
                  (offset_size, pad, ok3, f4) =
                    (if bigtiff
                     then (let (offset_size64, ok2, f3) = read_uint h f2 2 big_endian ok1;
                               (pad64, ok3, f4) = read_uint h f3 2 big_endian ok2
                           in ((ucast offset_size64 :: 16 word), (ucast pad64 :: 16 word), ok3, f4))
                     else (0, 0, ok1, f2));
                  (diroff, ok4, f5) = read_uint h f4 (if bigtiff then 8 else 4) big_endian ok3
              in if \<not> ok4
                 then Inl (Error FORMAT_NOT_SUPPORTED ''Can't read TIFF header'' [])
                 else if version = TIFF_VERSION_BIG
                 then (if offset_size \<noteq> 8 \<or> pad \<noteq> 0
                       then Inl (Error FORMAT_NOT_SUPPORTED
                                   ''Unexpected value in BigTIFF header'' [])
                       else Inr (big_endian, bigtiff, diroff, f5))
                 else if version \<noteq> TIFF_VERSION_CLASSIC
                 then Inl (Error FORMAT_NOT_SUPPORTED ''Unrecognized TIFF version'' [])
                 else Inr (big_endian, bigtiff, diroff, f5))))"

text \<open>
  The loop \<open>while (diroff != 0)\<close>, with the directories added to the array so far. It ends:
  a directory is only read at an offset the loop detector does not hold, the detector
  then holds it, and there are finitely many offsets.
\<close>

function read_directories ::
  "host \<Rightarrow> stream \<Rightarrow> 64 word \<Rightarrow> 64 word set \<Rightarrow> bool \<Rightarrow> bool \<Rightarrow> directory list \<Rightarrow>
     error + (directory list \<times> 64 word set \<times> stream)" where
  "read_directories h f diroff loop_detector bigtiff big_endian dirs =
     (if diroff = 0 then Inr (dirs, loop_detector, f)
      else
        (case read_directory h f diroff loop_detector bigtiff big_endian of
           Inl e \<Rightarrow> Inl e
         | Inr (ht, diroff', f', loop_detector') \<Rightarrow>
             read_directories h f' diroff' loop_detector' bigtiff big_endian (dirs @ [ht])))"
  by pat_completeness auto
termination
proof (relation "measure (\<lambda>(h, f, diroff, loop_detector, bigtiff, big_endian, dirs).
                   card (- loop_detector))")
  show "wf (measure (\<lambda>(h, f, diroff, loop_detector, bigtiff, big_endian, dirs).
              card (- loop_detector)))"
    by simp
next
  fix h :: host and f :: stream and diroff :: "64 word" and loop_detector :: "64 word set"
    and bigtiff big_endian :: bool and dirs :: "directory list"
    and x2 :: "directory \<times> 64 word \<times> stream \<times> 64 word set"
    and ht :: directory and y :: "64 word \<times> stream \<times> 64 word set"
    and diroff' :: "64 word" and ya :: "stream \<times> 64 word set"
    and f' :: stream and loop_detector' :: "64 word set"
  assume rd: "read_directory h f diroff loop_detector bigtiff big_endian = Inr x2"
    and x2: "(ht, y) = x2" and y: "(diroff', ya) = y" and ya: "(f', loop_detector') = ya"
  from rd x2 y ya have new: "diroff \<notin> loop_detector"
    and ins: "loop_detector' = insert diroff loop_detector"
    by (auto simp: read_directory_def Let_def split: if_splits prod.splits sum.splits bool.splits)
  have "- loop_detector' \<subset> - loop_detector"
    using new ins by auto
  then have "card (- loop_detector') < card (- loop_detector)"
    by (simp add: psubset_card_mono)
  then show "((h, f', diroff', loop_detector', bigtiff, big_endian, dirs @ [ht]),
              (h, f, diroff, loop_detector, bigtiff, big_endian, dirs))
             \<in> measure (\<lambda>(h, f, diroff, loop_detector, bigtiff, big_endian, dirs).
                          card (- loop_detector))"
    by simp
qed

declare read_directories.simps [simp del]

text \<open>
  \<open>_openslide_tifflike_create\<close>. Every \<open>goto FAIL\<close> and every early \<open>return NULL\<close> is a
  left summand; the directories read before a failure are in no result.
\<close>

definition tifflike_create :: "host \<Rightarrow> stream \<Rightarrow> error + tifflike" where
  "tifflike_create h f =
     (case tifflike_header h f of
        Inl e \<Rightarrow> Inl e
      | Inr (big_endian, bigtiff, diroff, f1) \<Rightarrow>
          (case read_directories h f1 diroff {} bigtiff big_endian [] of
             Inl e \<Rightarrow> Inl e
           | Inr (dirs, loop_detector, f2) \<Rightarrow>
               if length dirs = 0
               then Inl (Error BAD_DATA ''TIFF contains no directories'' [])
               else Inr \<lparr>directories = dirs\<rparr>))"

subsection \<open>Memory\<close>

text \<open>
  The functions that build the model once more, now with the memory they allocate and
  free. A block is what one call of \<open>g_slice_new\<close>, \<open>g_try_malloc\<close>, \<open>g_ptr_array_new\<close> or
  \<open>g_hash_table_new_full\<close> returns, and the heap says, for each thing the parser allocates
  blocks for, how many of them are allocated and not freed: the structs of models, the
  arrays of directories, the loop detectors and their keys, the tables of directories,
  the structs of items and the buffers of values. Each function takes the heap and
  returns it next to its result; the result is the one of the function without the heap.
  What a caller needs to clean up after a failure comes back as well: the table or the
  directories built so far, and the loop detector.
\<close>

record heap =
  tifflike_structs :: nat
  directory_arrays :: nat
  loop_detectors :: nat
  offset_keys :: nat
  directory_tables :: nat
  item_structs :: nat
  value_buffers :: nat

definition g_try_malloc_value :: "heap \<Rightarrow> heap" where
  "g_try_malloc_value hp = hp\<lparr>value_buffers := value_buffers hp + 1\<rparr>"

definition g_free_value :: "heap \<Rightarrow> heap" where
  "g_free_value hp = hp\<lparr>value_buffers := value_buffers hp - 1\<rparr>"

definition g_slice_new_item :: "heap \<Rightarrow> heap" where
  "g_slice_new_item hp = hp\<lparr>item_structs := item_structs hp + 1\<rparr>"

definition g_slice_free_item :: "heap \<Rightarrow> heap" where
  "g_slice_free_item hp = hp\<lparr>item_structs := item_structs hp - 1\<rparr>"

text \<open>
  \<open>read_tiff_value\<close>: the buffer is allocated after the tests of the sizes and freed at the
  label \<open>FAIL\<close>.
\<close>

definition read_tiff_value_mem ::
  "host \<Rightarrow> stream \<Rightarrow> int \<Rightarrow> int \<Rightarrow> int \<Rightarrow> byte list \<Rightarrow> int \<Rightarrow> bool \<Rightarrow> heap \<Rightarrow>
     (byte list \<times> stream) option \<times> heap" where
  "read_tiff_value_mem h f sz count offset val value_len big_endian hp =
     (if sz \<le> 0 \<or> count \<le> 0 \<or> count > SSIZE_MAX div sz then (None, hp)
      else let len = sz * count in
        if \<not> try_malloc h len then (None, hp)
        else let hp1 = g_try_malloc_value hp in
          if len \<le> value_len
          then (Some (fix_byte_order h (take (nat len) val) sz count big_endian, f), hp1)
          else let old_off = ftello f in
            (case fseeko f offset of
               (False, f1) \<Rightarrow> (None, g_free_value hp1)
             | (True, f1) \<Rightarrow>
                 (case fread f1 (nat len) of
                    (None, f2) \<Rightarrow> (None, g_free_value hp1)
                  | (Some result, f2) \<Rightarrow>
                      (Some (fix_byte_order h result sz count big_endian,
                             snd (fseeko f2 old_off)), hp1))))"

text \<open>
  \<open>tiff_item_destroy\<close>, the function the table of a directory calls on an item it lets go
  of, frees the value and the item. \<open>g_hash_table_insert\<close> lets go of the item a key had;
  \<open>g_hash_table_unref\<close> of the last reference lets go of every item and frees the table.
\<close>

definition tiff_item_destroy :: "heap \<Rightarrow> heap" where
  "tiff_item_destroy hp = g_slice_free_item (g_free_value hp)"

definition directory_insert :: "directory \<Rightarrow> int \<Rightarrow> heap \<Rightarrow> heap" where
  "directory_insert d tag hp = (if tag \<in> dom d then tiff_item_destroy hp else hp)"

definition directory_unref :: "directory \<Rightarrow> heap \<Rightarrow> heap" where
  "directory_unref d hp =
     (let hp1 = (tiff_item_destroy ^^ card (dom d)) hp
      in hp1\<lparr>directory_tables := directory_tables hp1 - 1\<rparr>)"

text \<open>
  The body of the loop over the entries. The item is allocated before the \<open>switch\<close> on the
  type; the two \<open>goto FAIL\<close> after that leave it as it is.
\<close>

definition read_directory_entry_mem ::
  "host \<Rightarrow> stream \<Rightarrow> bool \<Rightarrow> bool \<Rightarrow> heap \<Rightarrow> (error + (int \<times> tiff_item \<times> stream)) \<times> heap" where
  "read_directory_entry_mem h f bigtiff big_endian hp =
     (let (tag64, ok1, f1) = read_uint h f 2 big_endian True;
          tag = (ucast tag64 :: 16 word);
          (type64, ok2, f2) = read_uint h f1 2 big_endian ok1;
          type = (ucast type64 :: 16 word);
          (count, ok3, f3) = read_uint h f2 (if bigtiff then 8 else 4) big_endian ok2
      in if \<not> ok3 then (Inl (Error BAD_DATA ''Cannot read tag, type, and count'' []), hp)
      else
        (case fread f3 (if bigtiff then 8 else 4) of
           (None, f4) \<Rightarrow> (Inl (Error BAD_DATA ''Cannot read value/offset'' []), hp)
         | (Some val, f4) \<Rightarrow>
             (let offset =
                    (if bigtiff
                     then (of_nat (load_native h (fix_byte_order h val 8 1 big_endian)) :: 64 word)
                     else ucast (of_nat (load_native h (fix_byte_order h val 4 1 big_endian))
                                   :: 32 word));
                  hp1 = g_slice_new_item hp
              in case value_size_and_count type count of
                   None \<Rightarrow> (Inl (Error BAD_DATA ''Unknown type encountered: %d'' [uint type]), hp1)
                 | Some (value_size, count') \<Rightarrow>
                     (case read_tiff_value_mem h f4 value_size (sint count') (sint offset)
                             val (int (length val)) big_endian hp1 of
                        (None, hp2) \<Rightarrow> (Inl (Error BAD_DATA ''Cannot read value'' []), hp2)
                      | (Some (v, f5), hp2) \<Rightarrow>
                          (Inr (uint tag,
                                \<lparr>item_type = type, item_count = sint count, item_value = v\<rparr>,
                                f5), hp2)))))"

text \<open>The loop: the table comes back also when an entry fails.\<close>

fun read_directory_entries_mem ::
  "host \<Rightarrow> bool \<Rightarrow> bool \<Rightarrow> nat \<Rightarrow> stream \<Rightarrow> directory \<Rightarrow> heap \<Rightarrow>
     (error + stream) \<times> directory \<times> heap" where
  "read_directory_entries_mem h bigtiff big_endian 0 f result hp = (Inr f, result, hp)"
| "read_directory_entries_mem h bigtiff big_endian (Suc n) f result hp =
     (case read_directory_entry_mem h f bigtiff big_endian hp of
        (Inl e, hp1) \<Rightarrow> (Inl e, result, hp1)
      | (Inr (tag, item, f'), hp1) \<Rightarrow>
          read_directory_entries_mem h bigtiff big_endian n f' (result(tag \<mapsto> item))
            (directory_insert result tag hp1))"

text \<open>
  \<open>read_directory\<close>: the key of the loop detector and the table are allocated on the way,
  and the label \<open>FAIL\<close> unrefs the table when there is one. The loop detector is the
  caller's and comes back in every case.
\<close>

definition read_directory_mem ::
  "host \<Rightarrow> stream \<Rightarrow> 64 word \<Rightarrow> 64 word set \<Rightarrow> bool \<Rightarrow> bool \<Rightarrow> heap \<Rightarrow>
     (error + (directory \<times> 64 word \<times> stream)) \<times> 64 word set \<times> heap" where
  "read_directory_mem h f off loop_detector bigtiff big_endian hp =
     (if sint off \<le> 0 then (Inl (Error BAD_DATA ''Bad offset'' []), loop_detector, hp)
      else if off \<in> loop_detector
      then (Inl (Error BAD_DATA ''Loop detected'' []), loop_detector, hp)
      else
        (let hp1 = hp\<lparr>offset_keys := offset_keys hp + 1\<rparr>;
             loop_detector' = insert off loop_detector
         in case fseeko f (sint off) of
           (False, f1) \<Rightarrow> (Inl (Error IO_ERROR ''Cannot seek to offset'' []), loop_detector', hp1)
         | (True, f1) \<Rightarrow>
             (let (dircount, ok, f2) = read_uint h f1 (if bigtiff then 8 else 2) big_endian True
              in if \<not> ok
                 then (Inl (Error BAD_DATA ''Cannot read dircount'' []), loop_detector', hp1)
              else
                (let hp2 = hp1\<lparr>directory_tables := directory_tables hp1 + 1\<rparr>
                 in case read_directory_entries_mem h bigtiff big_endian (unat dircount) f2
                           Map.empty hp2 of
                   (Inl e, result, hp3) \<Rightarrow> (Inl e, loop_detector', directory_unref result hp3)
                 | (Inr f3, result, hp3) \<Rightarrow>
                     (let (nextdiroff, ok', f4) =
                            read_uint h f3 (if bigtiff then 8 else 4) big_endian ok
                      in if \<not> ok'
                         then (Inl (Error BAD_DATA ''Cannot read next directory offset'' []),
                               loop_detector', directory_unref result hp3)
                         else (Inr (result, nextdiroff, f4), loop_detector', hp3))))))"

text \<open>The loop \<open>while (diroff != 0)\<close>; the array of the directories is one block.\<close>

function read_directories_mem ::
  "host \<Rightarrow> stream \<Rightarrow> 64 word \<Rightarrow> 64 word set \<Rightarrow> bool \<Rightarrow> bool \<Rightarrow> directory list \<Rightarrow> heap \<Rightarrow>
     (error + stream) \<times> directory list \<times> 64 word set \<times> heap" where
  "read_directories_mem h f diroff loop_detector bigtiff big_endian dirs hp =
     (if diroff = 0 then (Inr f, dirs, loop_detector, hp)
      else
        (case read_directory_mem h f diroff loop_detector bigtiff big_endian hp of
           (Inl e, loop_detector', hp') \<Rightarrow> (Inl e, dirs, loop_detector', hp')
         | (Inr (ht, diroff', f'), loop_detector', hp') \<Rightarrow>
             read_directories_mem h f' diroff' loop_detector' bigtiff big_endian
               (dirs @ [ht]) hp'))"
  by pat_completeness auto
termination
  apply (relation "measure (\<lambda>(h, f, diroff, loop_detector, bigtiff, big_endian, dirs, hp).
                   card (- loop_detector))")
   apply simp
  apply (auto simp: read_directory_mem_def Let_def
      split: if_splits prod.splits sum.splits bool.splits intro!: psubset_card_mono)
  done

declare read_directories_mem.simps [simp del]

text \<open>
  \<open>_openslide_tifflike_destroy\<close>, the unref of the loop detector, which frees its keys
  (\<open>_openslide_int64_free\<close>), and \<open>_openslide_tifflike_create\<close>. The header is checked before
  anything is allocated.
\<close>

definition tifflike_destroy :: "directory list \<Rightarrow> heap \<Rightarrow> heap" where
  "tifflike_destroy dirs hp =
     (let hp1 = fold directory_unref dirs hp
      in hp1\<lparr>directory_arrays := directory_arrays hp1 - 1,
             tifflike_structs := tifflike_structs hp1 - 1\<rparr>)"

definition loop_detector_unref :: "64 word set \<Rightarrow> heap \<Rightarrow> heap" where
  "loop_detector_unref loop_detector hp =
     hp\<lparr>offset_keys := offset_keys hp - card loop_detector,
        loop_detectors := loop_detectors hp - 1\<rparr>"

definition tifflike_create_mem :: "host \<Rightarrow> stream \<Rightarrow> heap \<Rightarrow> (error + tifflike) \<times> heap" where
  "tifflike_create_mem h f hp =
     (case tifflike_header h f of
        Inl e \<Rightarrow> (Inl e, hp)
      | Inr (big_endian, bigtiff, diroff, f1) \<Rightarrow>
          (let hp1 = hp\<lparr>tifflike_structs := tifflike_structs hp + 1,
                         directory_arrays := directory_arrays hp + 1\<rparr>;
               hp2 = hp1\<lparr>loop_detectors := loop_detectors hp1 + 1\<rparr>
           in case read_directories_mem h f1 diroff {} bigtiff big_endian [] hp2 of
             (Inl e, dirs, loop_detector, hp3) \<Rightarrow>
               (Inl e, loop_detector_unref loop_detector (tifflike_destroy dirs hp3))
           | (Inr f2, dirs, loop_detector, hp3) \<Rightarrow>
               if length dirs = 0
               then (Inl (Error BAD_DATA ''TIFF contains no directories'' []),
                     loop_detector_unref loop_detector (tifflike_destroy dirs hp3))
               else (Inr \<lparr>directories = dirs\<rparr>, loop_detector_unref loop_detector hp3)))"

subsection \<open>Accessors\<close>

definition get_item :: "tifflike \<Rightarrow> int \<Rightarrow> int \<Rightarrow> tiff_item option" where
  "get_item tif dir tag =
     (if dir < 0 \<or> dir \<ge> int (length (directories tif)) then None
      else (directories tif ! nat dir) tag)"

definition get_directory_count :: "tifflike \<Rightarrow> int" where
  "get_directory_count tif = int (length (directories tif))"

definition get_value_count :: "tifflike \<Rightarrow> int \<Rightarrow> int \<Rightarrow> int" where
  "get_value_count tif dir tag =
     (case get_item tif dir tag of None \<Rightarrow> 0 | Some item \<Rightarrow> item_count item)"

text \<open>
  The flag \<open>bool *ok\<close> is \<open>None\<close> for a \<open>NULL\<close> pointer and \<open>Some b\<close> for a pointer to \<open>b\<close>.
  The accessors only ever clear it (\<open>if (ok != NULL) *ok = false\<close>), and return it next to
  their value.
\<close>

definition clear_ok :: "bool option \<Rightarrow> bool option" where
  "clear_ok ok = (case ok of None \<Rightarrow> None | Some b \<Rightarrow> Some False)"

definition get_and_check_item ::
  "tifflike \<Rightarrow> int \<Rightarrow> int \<Rightarrow> int \<Rightarrow> bool option \<Rightarrow> tiff_item option \<times> bool option" where
  "get_and_check_item tif dir tag i ok =
     (case get_item tif dir tag of
        None \<Rightarrow> (None, clear_ok ok)
      | Some item \<Rightarrow>
          if i < 0 \<or> i \<ge> item_count item then (None, clear_ok ok) else (Some item, ok))"

text \<open>
  \<open>((uintN_t *) item->value)[i]\<close>: the element \<open>i\<close> of the value read as an array of integers
  of \<open>sz\<close> bytes.
\<close>

definition load_elem :: "host \<Rightarrow> byte list \<Rightarrow> nat \<Rightarrow> int \<Rightarrow> nat" where
  "load_elem h v sz i = load_native h (take sz (drop (nat i * sz) v))"

definition get_uint ::
  "host \<Rightarrow> tifflike \<Rightarrow> int \<Rightarrow> int \<Rightarrow> int \<Rightarrow> bool option \<Rightarrow> 64 word \<times> bool option" where
  "get_uint h tif dir tag i ok =
     (case get_and_check_item tif dir tag i ok of
        (None, ok') \<Rightarrow> (0, ok')
      | (Some item, ok') \<Rightarrow>
          if item_type item = TIFF_BYTE
          then (ucast (of_nat (load_elem h (item_value item) 1 i) :: 8 word), ok')
          else if item_type item = TIFF_SHORT
          then (ucast (of_nat (load_elem h (item_value item) 2 i) :: 16 word), ok')
          else if item_type item = TIFF_LONG \<or> item_type item = TIFF_IFD
          then (ucast (of_nat (load_elem h (item_value item) 4 i) :: 32 word), ok')
          else if item_type item = TIFF_LONG8 \<or> item_type item = TIFF_IFD8
          then (of_nat (load_elem h (item_value item) 8 i), ok')
          else (0, clear_ok ok'))"

text \<open>The result is the value of the \<open>int64_t\<close>.\<close>

definition get_sint ::
  "host \<Rightarrow> tifflike \<Rightarrow> int \<Rightarrow> int \<Rightarrow> int \<Rightarrow> bool option \<Rightarrow> int \<times> bool option" where
  "get_sint h tif dir tag i ok =
     (case get_and_check_item tif dir tag i ok of
        (None, ok') \<Rightarrow> (0, ok')
      | (Some item, ok') \<Rightarrow>
          if item_type item = TIFF_SBYTE
          then (sint (of_nat (load_elem h (item_value item) 1 i) :: 8 word), ok')
          else if item_type item = TIFF_SSHORT
          then (sint (of_nat (load_elem h (item_value item) 2 i) :: 16 word), ok')
          else if item_type item = TIFF_SLONG
          then (sint (of_nat (load_elem h (item_value item) 4 i) :: 32 word), ok')
          else if item_type item = TIFF_SLONG8
          then (sint (of_nat (load_elem h (item_value item) 8 i) :: 64 word), ok')
          else (0, clear_ok ok'))"

text \<open>
  A \<open>double\<close> is a value of IEEE 754 binary64: a NaN, an infinity with its sign, or a
  finite number with its sign (zero has one) and its magnitude. The payload and the sign
  of a NaN are not kept. \<open>double_of_bits\<close> is the \<open>double\<close> that \<open>memcpy\<close> makes of 64 bits, and
  \<open>float_of_bits\<close> the \<open>double\<close> that the conversion makes of the \<open>float\<close> of 32 bits, which
  keeps the value.
\<close>

datatype c_double = NAN | Infinity bool | Finite bool real

definition double_of_bits :: "64 word \<Rightarrow> c_double" where
  "double_of_bits w =
     (let s = bit w 63; e = (unat w div 2 ^ 52) mod 2 ^ 11; m = unat w mod 2 ^ 52
      in if e = 2047 then (if m = 0 then Infinity s else NAN)
         else if e = 0 then Finite s (real m / 2 ^ 1074)
         else if e < 1075 then Finite s (real (2 ^ 52 + m) / 2 ^ (1075 - e))
         else Finite s (real (2 ^ 52 + m) * 2 ^ (e - 1075)))"

definition float_of_bits :: "32 word \<Rightarrow> c_double" where
  "float_of_bits w =
     (let s = bit w 31; e = (unat w div 2 ^ 23) mod 2 ^ 8; m = unat w mod 2 ^ 23
      in if e = 255 then (if m = 0 then Infinity s else NAN)
         else if e = 0 then Finite s (real m / 2 ^ 149)
         else if e < 150 then Finite s (real (2 ^ 23 + m) / 2 ^ (150 - e))
         else Finite s (real (2 ^ 23 + m) * 2 ^ (e - 150)))"

text \<open>
  \<open>(double) a / (double) b\<close> for two integers of 32 bits, signed or unsigned, in the default
  rounding mode. The conversions are exact. A quotient of two such numbers other than 0
  lies between \<open>2 ^ -32\<close> and \<open>2 ^ 32\<close>, so it neither overflows nor is subnormal, and its
  rounding is the one to 53 significant bits, ties to even: \<open>round_quotient n d\<close> scales
  \<open>n / d\<close> by \<open>2 ^ 85\<close>, which leaves at least 54 bits before the binary point, cuts the
  bits below the first 53 (\<open>drop\<close> of them) and rounds on what was cut. \<open>bit_length n\<close> is
  the number of bits of \<open>n\<close>.
\<close>

fun bit_length :: "nat \<Rightarrow> nat" where
  "bit_length n = (if n = 0 then 0 else Suc (bit_length (n div 2)))"

declare bit_length.simps [simp del]

definition round_quotient :: "nat \<Rightarrow> nat \<Rightarrow> real" where
  "round_quotient n d =
     (let N = n * 2 ^ 85;
          drop = bit_length (N div d) - 53;
          U = d * 2 ^ drop;
          q = N div U;
          r = N mod U;
          m = (if 2 * r < U \<or> (2 * r = U \<and> even q) then q else q + 1)
      in real m * 2 ^ drop / 2 ^ 85)"

definition double_quotient :: "int \<Rightarrow> int \<Rightarrow> c_double" where
  "double_quotient a b =
     (if b = 0 then (if a = 0 then NAN else Infinity (a < 0))
      else Finite ((a < 0) \<noteq> (b < 0)) (round_quotient (nat \<bar>a\<bar>) (nat \<bar>b\<bar>)))"

definition get_float ::
  "host \<Rightarrow> tifflike \<Rightarrow> int \<Rightarrow> int \<Rightarrow> int \<Rightarrow> bool option \<Rightarrow> c_double \<times> bool option" where
  "get_float h tif dir tag i ok =
     (case get_and_check_item tif dir tag i ok of
        (None, ok') \<Rightarrow> (NAN, ok')
      | (Some item, ok') \<Rightarrow>
          if item_type item = TIFF_FLOAT
          then (float_of_bits (of_nat (load_elem h (item_value item) 4 i)), ok')
          else if item_type item = TIFF_DOUBLE
          then (double_of_bits (of_nat (load_elem h (item_value item) 8 i)), ok')
          else if item_type item = TIFF_RATIONAL
          then (double_quotient
                  (uint (of_nat (load_elem h (item_value item) 4 (i * 2)) :: 32 word))
                  (uint (of_nat (load_elem h (item_value item) 4 (i * 2 + 1)) :: 32 word)), ok')
          else if item_type item = TIFF_SRATIONAL
          then (double_quotient
                  (sint (of_nat (load_elem h (item_value item) 4 (i * 2)) :: 32 word))
                  (sint (of_nat (load_elem h (item_value item) 4 (i * 2 + 1)) :: 32 word)), ok')
          else (NAN, clear_ok ok'))"

definition get_buffer :: "tifflike \<Rightarrow> int \<Rightarrow> int \<Rightarrow> byte list option" where
  "get_buffer tif dir tag =
     (case get_item tif dir tag of
        None \<Rightarrow> None
      | Some item \<Rightarrow>
          if item_type item = TIFF_ASCII \<or> item_type item = TIFF_UNDEFINED
          then Some (item_value item)
          else None)"

subsection \<open>The quickhash of a level\<close>

text \<open>
  Modelled from the spec: \<open>struct _openslide_hash\<close>, \<open>_openslide_hash_disable\<close> and
  \<open>_openslide_hash_file_part\<close> live in openslide-hash.c, which is not among the sources.
  The accumulator is enabled or, for good, disabled, and records the file parts (offset
  and length) it was fed, in order. Reading a part can fail, which is fatal with
  \<open>BAD_DATA\<close>; which parts can be read is the parameter \<open>readable\<close>.
\<close>

record hash =
  enabled :: bool
  parts :: "(int \<times> int) list"

definition hash_disable :: "hash \<Rightarrow> hash" where
  "hash_disable hs = hs\<lparr>enabled := False\<rparr>"

definition hash_file_part :: "(int \<Rightarrow> int \<Rightarrow> bool) \<Rightarrow> hash \<Rightarrow> int \<Rightarrow> int \<Rightarrow> error + hash" where
  "hash_file_part readable hs offset len =
     (if readable offset len then Inr (hs\<lparr>parts := parts hs @ [(offset, len)]\<rparr>)
      else Inl (Error BAD_DATA ''Cannot read file part'' [offset, len]))"

text \<open>
  The first loop of \<open>hash_tiff_level\<close>. \<open>total\<close> (here \<open>sum0\<close>) is an \<open>int64_t\<close> to which a \<open>uint64_t\<close> is
  added; the comparison with \<open>5 << 20\<close> is signed. The result says whether the loop left
  through the \<open>return\<close> in its body.
\<close>

function check_total_size ::
  "host \<Rightarrow> tifflike \<Rightarrow> int \<Rightarrow> int \<Rightarrow> int \<Rightarrow> int \<Rightarrow> 64 word \<Rightarrow> bool option \<Rightarrow> bool \<times> bool option" where
  "check_total_size h tif dir length_tag count i sum0 ok =
     (if i < count
      then (let (len, ok') = get_uint h tif dir length_tag i ok;
                sum1 = sum0 + len
            in if sint sum1 > 5 * 2 ^ 20 then (True, ok')
               else check_total_size h tif dir length_tag count (i + 1) sum1 ok')
      else (False, ok))"
  by pat_completeness auto
termination
  by (relation "measure (\<lambda>(h, tif, dir, length_tag, count, i, sum0, ok). nat (count - i))") auto

declare check_total_size.simps [simp del]

text \<open>The second loop: the raw data of each tile or strip goes to the accumulator.\<close>

function hash_raw_data ::
  "(int \<Rightarrow> int \<Rightarrow> bool) \<Rightarrow> host \<Rightarrow> tifflike \<Rightarrow> int \<Rightarrow> int \<Rightarrow> int \<Rightarrow> int \<Rightarrow> int \<Rightarrow>
     bool option \<Rightarrow> hash \<Rightarrow> error + hash" where
  "hash_raw_data readable h tif dir offset_tag length_tag count i ok hs =
     (if i < count
      then (let (offset, ok1) = get_uint h tif dir offset_tag i ok;
                (len, ok2) = get_uint h tif dir length_tag i ok1
            in if ok2 \<noteq> Some True
               then Inl (Error BAD_DATA
                           ''Invalid tile/strip offset/length for directory %d'' [dir])
               else
                 (case hash_file_part readable hs (sint offset) (sint len) of
                    Inl e \<Rightarrow> Inl e
                  | Inr hs' \<Rightarrow>
                      hash_raw_data readable h tif dir offset_tag length_tag count (i + 1) ok2 hs'))
      else Inr hs)"
  by pat_completeness auto
termination
  by (relation "measure (\<lambda>(readable, h, tif, dir, offset_tag, length_tag, count, i, ok, hs).
                  nat (count - i))") auto

declare hash_raw_data.simps [simp del]

definition hash_tiff_level ::
  "(int \<Rightarrow> int \<Rightarrow> bool) \<Rightarrow> host \<Rightarrow> hash \<Rightarrow> tifflike \<Rightarrow> int \<Rightarrow> error + hash" where
  "hash_tiff_level readable h hs tif dir =
     (case (if get_value_count tif dir TIFFTAG_TILEOFFSETS \<noteq> 0
            then Some (TIFFTAG_TILEOFFSETS, TIFFTAG_TILEBYTECOUNTS)
            else if get_value_count tif dir TIFFTAG_STRIPOFFSETS \<noteq> 0
            then Some (TIFFTAG_STRIPOFFSETS, TIFFTAG_STRIPBYTECOUNTS)
            else None) of
        None \<Rightarrow> Inl (Error BAD_DATA ''Directory %d is neither tiled nor stripped'' [dir])
      | Some (offset_tag, length_tag) \<Rightarrow>
          (let count = get_value_count tif dir offset_tag in
           if count = 0 \<or> count \<noteq> get_value_count tif dir length_tag
           then Inl (Error BAD_DATA ''Invalid tile/strip counts for directory %d'' [dir])
           else
             (case check_total_size h tif dir length_tag count 0 0 (Some True) of
                (True, ok) \<Rightarrow> Inr (hash_disable hs)
              | (False, ok) \<Rightarrow>
                  hash_raw_data readable h tif dir offset_tag length_tag count 0 ok hs)))"

section \<open>Vocabulary of the properties\<close>

text \<open>The types \<open>get_uint\<close> accepts, and the size of their elements.\<close>

definition is_uint_type :: "16 word \<Rightarrow> bool" where
  "is_uint_type t \<longleftrightarrow> t \<in> {TIFF_BYTE, TIFF_SHORT, TIFF_LONG, TIFF_LONG8, TIFF_IFD, TIFF_IFD8}"

definition uint_width :: "16 word \<Rightarrow> nat" where
  "uint_width t =
     (if t = TIFF_BYTE then 1 else if t = TIFF_SHORT then 2
      else if t = TIFF_LONG \<or> t = TIFF_IFD then 4 else 8)"

text \<open>
  The number a field of the file denotes in the byte order of the file, and the bytes of
  a file at a position.
\<close>

definition file_uint :: "bool \<Rightarrow> byte list \<Rightarrow> nat" where
  "file_uint big_endian bs = (if big_endian then le_nat (rev bs) else le_nat bs)"

definition bytes_at :: "byte list \<Rightarrow> nat \<Rightarrow> nat \<Rightarrow> byte list" where
  "bytes_at c p n = take n (drop p c)"

text \<open>
  The header shapes of section 4.1 of the specification: one of the two markers, then
  version 42 and a 4-byte offset, or version 43, offset size 8, reserved field 0 and an
  8-byte offset.
\<close>

definition header_shape_ok :: "byte list \<Rightarrow> bool" where
  "header_shape_ok c \<longleftrightarrow>
     (let magic = bytes_at c 0 2;
          big_endian = (magic = [0x4d, 0x4d]);
          version = file_uint big_endian (bytes_at c 2 2)
      in (magic = [0x49, 0x49] \<or> magic = [0x4d, 0x4d])
         \<and> (version = 42 \<and> 8 \<le> length c
              \<or> version = 43 \<and> file_uint big_endian (bytes_at c 4 2) = 8
                  \<and> file_uint big_endian (bytes_at c 6 2) = 0 \<and> 16 \<le> length c))"

text \<open>
  The states the loop of \<open>_openslide_tifflike_create\<close> passes through. A state is the
  stream, the offset of the next directory and the loop detector. \<open>walk_reaches\<close> relates
  a state to each state the loop reaches from it, with the directories read on the way,
  in order.
\<close>

type_synonym walk_state = "stream \<times> 64 word \<times> 64 word set"

inductive walk_reaches ::
  "host \<Rightarrow> bool \<Rightarrow> bool \<Rightarrow> walk_state \<Rightarrow> walk_state \<Rightarrow> directory list \<Rightarrow> bool"
  for h :: host and bigtiff :: bool and big_endian :: bool where
    start: "walk_reaches h bigtiff big_endian s s []"
  | step: "walk_reaches h bigtiff big_endian s (f1, off1, ld1) ds \<Longrightarrow>
           off1 \<noteq> 0 \<Longrightarrow>
           read_directory h f1 off1 ld1 bigtiff big_endian = Inr (d, off2, f2, ld2) \<Longrightarrow>
           walk_reaches h bigtiff big_endian s (f2, off2, ld2) (ds @ [d])"

text \<open>
  The entries of a directory in the order of the file, as the loop of \<open>read_directory\<close>
  reads them: the same loop, with a list in the place of the hash table.
\<close>

fun read_entry_list ::
  "host \<Rightarrow> bool \<Rightarrow> bool \<Rightarrow> nat \<Rightarrow> stream \<Rightarrow> error + ((int \<times> tiff_item) list \<times> stream)" where
  "read_entry_list h bigtiff big_endian 0 f = Inr ([], f)"
| "read_entry_list h bigtiff big_endian (Suc n) f =
     (case read_directory_entry h f bigtiff big_endian of
        Inl e \<Rightarrow> Inl e
      | Inr (tag, item, f') \<Rightarrow>
          (case read_entry_list h bigtiff big_endian n f' of
             Inl e \<Rightarrow> Inl e
           | Inr (es, f'') \<Rightarrow> Inr ((tag, item) # es, f'')))"


text \<open>
  The fields of the directory entry at position \<open>p\<close> of a file, as section 6 of the
  specification lays them out: tag, type, count and the inline field, the last two of 4
  bytes in a classic TIFF and of 8 in a BigTIFF.
\<close>

definition field_width :: "bool \<Rightarrow> nat" where
  "field_width bigtiff = (if bigtiff then 8 else 4)"

definition entry_tag :: "bool \<Rightarrow> byte list \<Rightarrow> nat \<Rightarrow> int" where
  "entry_tag big_endian c p = int (file_uint big_endian (bytes_at c p 2))"

definition entry_type :: "bool \<Rightarrow> byte list \<Rightarrow> nat \<Rightarrow> 16 word" where
  "entry_type big_endian c p = of_nat (file_uint big_endian (bytes_at c (p + 2) 2))"

definition entry_count :: "bool \<Rightarrow> bool \<Rightarrow> byte list \<Rightarrow> nat \<Rightarrow> 64 word" where
  "entry_count bigtiff big_endian c p =
     of_nat (file_uint big_endian (bytes_at c (p + 4) (field_width bigtiff)))"

definition entry_field :: "bool \<Rightarrow> byte list \<Rightarrow> nat \<Rightarrow> byte list" where
  "entry_field bigtiff c p = bytes_at c (p + 4 + field_width bigtiff) (field_width bigtiff)"

text \<open>
  The tags \<open>hash_tiff_level\<close> settles on for a directory, and the byte count of tile or
  strip \<open>i\<close> as \<open>get_uint\<close> returns it, an unsigned number of 64 bits.
\<close>

definition level_offset_tag :: "tifflike \<Rightarrow> int \<Rightarrow> int" where
  "level_offset_tag tif dir =
     (if get_value_count tif dir TIFFTAG_TILEOFFSETS \<noteq> 0 then TIFFTAG_TILEOFFSETS
      else TIFFTAG_STRIPOFFSETS)"

definition level_length_tag :: "tifflike \<Rightarrow> int \<Rightarrow> int" where
  "level_length_tag tif dir =
     (if get_value_count tif dir TIFFTAG_TILEOFFSETS \<noteq> 0 then TIFFTAG_TILEBYTECOUNTS
      else TIFFTAG_STRIPBYTECOUNTS)"

definition byte_count :: "host \<Rightarrow> tifflike \<Rightarrow> int \<Rightarrow> int \<Rightarrow> int \<Rightarrow> int" where
  "byte_count h tif dir tag i = uint (fst (get_uint h tif dir tag i None))"

text \<open>
  The loop of \<open>_openslide_tifflike_create\<close> once more, with a bound on the number of times
  the loop condition is tested: \<open>None\<close> says that the bound was reached before the loop
  was left.
\<close>

fun read_directories_bounded ::
  "nat \<Rightarrow> host \<Rightarrow> stream \<Rightarrow> 64 word \<Rightarrow> 64 word set \<Rightarrow> bool \<Rightarrow> bool \<Rightarrow> directory list \<Rightarrow>
     (error + (directory list \<times> 64 word set \<times> stream)) option" where
  "read_directories_bounded 0 h f diroff loop_detector bigtiff big_endian dirs = None"
| "read_directories_bounded (Suc n) h f diroff loop_detector bigtiff big_endian dirs =
     (if diroff = 0 then Some (Inr (dirs, loop_detector, f))
      else
        (case read_directory h f diroff loop_detector bigtiff big_endian of
           Inl e \<Rightarrow> Some (Inl e)
         | Inr (ht, diroff', f', loop_detector') \<Rightarrow>
             read_directories_bounded n h f' diroff' loop_detector' bigtiff big_endian
               (dirs @ [ht])))"

text \<open>
  The invariant of a tag entry (section 3 of the specification): the buffer of an item
  has as many bytes as its type and its count say. The count is the one of the file, an
  unsigned number of 64 bits that the item keeps as an \<open>int64_t\<close>. \<open>elem_size\<close> is the size
  of one element of a type.
\<close>

definition item_ok :: "tiff_item \<Rightarrow> bool" where
  "item_ok item \<longleftrightarrow>
     (\<exists>c sz cnt. item_count item = sint c
        \<and> value_size_and_count (item_type item) c = Some (sz, cnt)
        \<and> 0 < sint cnt
        \<and> length (item_value item) = nat (sz * sint cnt))"

definition model_ok :: "tifflike \<Rightarrow> bool" where
  "model_ok tif \<longleftrightarrow> (\<forall>d \<in> set (directories tif). \<forall>item \<in> ran d. item_ok item)"

definition elem_size :: "16 word \<Rightarrow> nat" where
  "elem_size t = (case value_size_and_count t 1 of None \<Rightarrow> 0 | Some (sz, cnt) \<Rightarrow> nat sz)"

definition is_rational_type :: "16 word \<Rightarrow> bool" where
  "is_rational_type t \<longleftrightarrow> t = TIFF_RATIONAL \<or> t = TIFF_SRATIONAL"

text \<open>
  The type table of section 3 of the specification: the known types, the width of one
  element, and the number of raw elements of a value, which for the two rational types
  is twice the count of the entry. All numbers are natural numbers here, without a bound.
\<close>

definition known_type :: "16 word \<Rightarrow> bool" where
  "known_type t \<longleftrightarrow>
     t \<in> {TIFF_BYTE, TIFF_ASCII, TIFF_SHORT, TIFF_LONG, TIFF_RATIONAL, TIFF_SBYTE,
          TIFF_UNDEFINED, TIFF_SSHORT, TIFF_SLONG, TIFF_SRATIONAL, TIFF_FLOAT, TIFF_DOUBLE,
          TIFF_IFD, TIFF_LONG8, TIFF_SLONG8, TIFF_IFD8}"

definition type_width :: "16 word \<Rightarrow> nat" where
  "type_width t =
     (if t \<in> {TIFF_BYTE, TIFF_ASCII, TIFF_SBYTE, TIFF_UNDEFINED} then 1
      else if t \<in> {TIFF_SHORT, TIFF_SSHORT} then 2
      else if t \<in> {TIFF_DOUBLE, TIFF_LONG8, TIFF_SLONG8, TIFF_IFD8} then 8
      else 4)"

definition raw_elements :: "16 word \<Rightarrow> nat \<Rightarrow> nat" where
  "raw_elements t n = (if t = TIFF_RATIONAL \<or> t = TIFF_SRATIONAL then 2 * n else n)"

text \<open>
  The entry at position \<open>p\<close> of a file, read as section 4.3 of the specification says: its
  count as a number, the number of its raw elements, the length of its value in bytes,
  and the bytes of the file the value is made of, which are the first bytes of the inline
  field when the value fits it and otherwise the bytes at the offset that the inline field
  denotes.
\<close>

definition raw_count :: "bool \<Rightarrow> bool \<Rightarrow> byte list \<Rightarrow> nat \<Rightarrow> nat" where
  "raw_count bigtiff big_endian c p =
     file_uint big_endian (bytes_at c (p + 4) (field_width bigtiff))"

definition entry_elements :: "bool \<Rightarrow> bool \<Rightarrow> byte list \<Rightarrow> nat \<Rightarrow> nat" where
  "entry_elements bigtiff big_endian c p =
     raw_elements (entry_type big_endian c p) (raw_count bigtiff big_endian c p)"

definition entry_length :: "bool \<Rightarrow> bool \<Rightarrow> byte list \<Rightarrow> nat \<Rightarrow> nat" where
  "entry_length bigtiff big_endian c p =
     type_width (entry_type big_endian c p) * entry_elements bigtiff big_endian c p"

definition entry_source :: "bool \<Rightarrow> bool \<Rightarrow> byte list \<Rightarrow> nat \<Rightarrow> byte list" where
  "entry_source bigtiff big_endian c p =
     (if entry_length bigtiff big_endian c p \<le> field_width bigtiff
      then take (entry_length bigtiff big_endian c p) (entry_field bigtiff c p)
      else bytes_at c (file_uint big_endian (entry_field bigtiff c p))
             (entry_length bigtiff big_endian c p))"

text \<open>The bytes of each of \<open>n\<close> elements of \<open>w\<close> bytes, reversed.\<close>

primrec swap_elements :: "nat \<Rightarrow> nat \<Rightarrow> byte list \<Rightarrow> byte list" where
  "swap_elements w 0 data = []"
| "swap_elements w (Suc n) data = rev (take w data) @ swap_elements w n (drop w data)"


text \<open>
  Heaps, as the properties speak of them: a heap with the items of a table of \<open>k\<close> entries
  on top (each entry owns one struct and one buffer), with the tables of directories and
  their items, with the keys of a loop detector of \<open>k\<close> offsets, and with everything a
  model owns: its struct, its array and its directories. \<open>leaks_item\<close> picks the two errors
  of \<open>read_directory\<close> that are raised between the allocation of an item and its
  insertion into the table.
\<close>

definition add_items :: "nat \<Rightarrow> heap \<Rightarrow> heap" where
  "add_items k hp =
     hp\<lparr>item_structs := item_structs hp + k, value_buffers := value_buffers hp + k\<rparr>"

definition add_directories :: "directory list \<Rightarrow> heap \<Rightarrow> heap" where
  "add_directories dirs hp =
     (let hp1 = add_items (sum_list (map (\<lambda>d. card (dom d)) dirs)) hp
      in hp1\<lparr>directory_tables := directory_tables hp1 + length dirs\<rparr>)"

definition add_keys :: "nat \<Rightarrow> heap \<Rightarrow> heap" where
  "add_keys k hp = hp\<lparr>offset_keys := offset_keys hp + k\<rparr>"

definition model_blocks :: "tifflike \<Rightarrow> heap \<Rightarrow> heap" where
  "model_blocks tif hp =
     (let hp1 = add_directories (directories tif) hp
      in hp1\<lparr>tifflike_structs := tifflike_structs hp1 + 1,
             directory_arrays := directory_arrays hp1 + 1\<rparr>)"

definition leaks_item :: "error \<Rightarrow> bool" where
  "leaks_item e \<longleftrightarrow>
     (case e of Error kind msg args \<Rightarrow>
        msg = ''Unknown type encountered: %d'' \<or> msg = ''Cannot read value'')"

section \<open>Example inputs\<close>

definition little_endian_host :: host where
  "little_endian_host = \<lparr>host_big_endian = False, try_malloc = (\<lambda>len. True)\<rparr>"

definition big_endian_host :: host where
  "big_endian_host = \<lparr>host_big_endian = True, try_malloc = (\<lambda>len. True)\<rparr>"

text \<open>A model of one directory whose tag 256 holds the two shorts 5 and 261.\<close>

definition two_shorts :: tifflike where
  "two_shorts =
     \<lparr>directories =
        [[256 \<mapsto> \<lparr>item_type = TIFF_SHORT, item_count = 2, item_value = [5, 0, 5, 1]\<rparr>]]\<rparr>"

text \<open>
  Three small files. The first has the marker \<open>XX\<close>; the second is a little-endian
  BigTIFF header whose offset size is 4; the third is a little-endian classic TIFF with
  one directory at offset 8, whose one entry is tag 256, a single short of value 5.
\<close>

definition bad_magic_file :: stream where
  "bad_magic_file = \<lparr>content = [0x58, 0x58, 42, 0, 8, 0, 0, 0], pos = 0, seek_limit = 2 ^ 44\<rparr>"

definition bad_offset_size_file :: stream where
  "bad_offset_size_file =
     \<lparr>content = [0x49, 0x49, 43, 0, 4, 0, 0, 0, 16, 0, 0, 0, 0, 0, 0, 0], pos = 0, seek_limit = 2 ^ 44\<rparr>"

definition one_short_file :: stream where
  "one_short_file =
     \<lparr>content = [0x49, 0x49, 42, 0, 8, 0, 0, 0,
                 1, 0,
                 0, 1, 3, 0, 1, 0, 0, 0, 5, 0, 0, 0,
                 0, 0, 0, 0],
      pos = 0, seek_limit = 2 ^ 44\<rparr>"

text \<open>
  A big-endian classic TIFF with two empty directories, at offsets 8 and 14, each of
  which names the other as its successor.
\<close>

definition cycle_file :: stream where
  "cycle_file =
     \<lparr>content = [0x4d, 0x4d, 0, 42, 0, 0, 0, 8,
                 0, 0, 0, 0, 0, 14,
                 0, 0, 0, 0, 0, 8],
      pos = 0, seek_limit = 2 ^ 44\<rparr>"

text \<open>
  A little-endian BigTIFF header whose first directory offset is \<open>0xffffffffffffffff\<close>,
  that is \<open>-1\<close> as an \<open>int64_t\<close>, and a classic header whose first directory offset is 0.
\<close>

definition negative_offset_file :: stream where
  "negative_offset_file =
     \<lparr>content = [0x49, 0x49, 43, 0, 8, 0, 0, 0,
                 255, 255, 255, 255, 255, 255, 255, 255],
      pos = 0, seek_limit = 2 ^ 44\<rparr>"

definition no_directory_file :: stream where
  "no_directory_file = \<lparr>content = [0x49, 0x49, 42, 0, 0, 0, 0, 0], pos = 0, seek_limit = 2 ^ 44\<rparr>"

text \<open>
  The file \<open>one_short_file\<close> with a second directory at offset 26, whose one entry has the
  unknown type 99.
\<close>

definition bad_second_directory_file :: stream where
  "bad_second_directory_file =
     \<lparr>content = [0x49, 0x49, 42, 0, 8, 0, 0, 0,
                 1, 0,
                 0, 1, 3, 0, 1, 0, 0, 0, 5, 0, 0, 0,
                 26, 0, 0, 0,
                 1, 0,
                 1, 1, 99, 0, 1, 0, 0, 0, 0, 0, 0, 0,
                 0, 0, 0, 0],
      pos = 0, seek_limit = 2 ^ 44\<rparr>"

text \<open>
  A little-endian classic TIFF whose one directory holds tag 256 twice: first a short of
  value 5, then a short of value 7.
\<close>

definition duplicate_tag_file :: stream where
  "duplicate_tag_file =
     \<lparr>content = [0x49, 0x49, 42, 0, 8, 0, 0, 0,
                 2, 0,
                 0, 1, 3, 0, 1, 0, 0, 0, 5, 0, 0, 0,
                 0, 1, 3, 0, 1, 0, 0, 0, 7, 0, 0, 0,
                 0, 0, 0, 0],
      pos = 0, seek_limit = 2 ^ 44\<rparr>"

text \<open>
  A big-endian classic TIFF whose one entry, tag 258, holds three shorts of value 8: six
  bytes, more than the inline field has, stored at offset 26.
\<close>

definition three_shorts_file :: stream where
  "three_shorts_file =
     \<lparr>content = [0x4d, 0x4d, 0, 42, 0, 0, 0, 8,
                 0, 1,
                 1, 2, 0, 3, 0, 0, 0, 3, 0, 0, 0, 26,
                 0, 0, 0, 0,
                 0, 8, 0, 8, 0, 8],
      pos = 0, seek_limit = 2 ^ 44\<rparr>"

text \<open>
  A little-endian classic TIFF with one directory of two strips. The strip offsets (tag
  273, two longs at offset 38) are 62 and 62. The strip byte counts (tag 279, two values
  of type Long8 at offset 46) are \<open>0xffffffffffa00000\<close> and \<open>0x600000\<close>: as unsigned
  numbers their sum is \<open>2 ^ 64\<close>. \<open>wrapping_strips\<close> is the model of this file on a
  little-endian host.
\<close>

definition wrapping_strips_file :: stream where
  "wrapping_strips_file =
     \<lparr>content = [0x49, 0x49, 42, 0, 8, 0, 0, 0,
                 2, 0,
                 0x11, 1, 4, 0, 2, 0, 0, 0, 38, 0, 0, 0,
                 0x17, 1, 16, 0, 2, 0, 0, 0, 46, 0, 0, 0,
                 0, 0, 0, 0,
                 62, 0, 0, 0, 62, 0, 0, 0,
                 0, 0, 0xa0, 0xff, 0xff, 0xff, 0xff, 0xff,
                 0, 0, 0x60, 0, 0, 0, 0, 0,
                 0xaa, 0xbb],
      pos = 0, seek_limit = 2 ^ 44\<rparr>"

definition wrapping_strips :: tifflike where
  "wrapping_strips =
     \<lparr>directories =
        [[273 \<mapsto> \<lparr>item_type = TIFF_LONG, item_count = 2,
                   item_value = [62, 0, 0, 0, 62, 0, 0, 0]\<rparr>,
          279 \<mapsto> \<lparr>item_type = TIFF_LONG8, item_count = 2,
                   item_value = [0, 0, 0xa0, 0xff, 0xff, 0xff, 0xff, 0xff,
                                 0, 0, 0x60, 0, 0, 0, 0, 0]\<rparr>]]\<rparr>"

text \<open>
  A model of one directory with a single strip of 6 MiB, and one whose tag 282 holds the
  rational 1/2 and whose tag 283 holds the rational 1/0.
\<close>

definition large_strip :: tifflike where
  "large_strip =
     \<lparr>directories =
        [[273 \<mapsto> \<lparr>item_type = TIFF_LONG, item_count = 1, item_value = [62, 0, 0, 0]\<rparr>,
          279 \<mapsto> \<lparr>item_type = TIFF_LONG, item_count = 1, item_value = [0, 0, 0x60, 0]\<rparr>]]\<rparr>"

definition two_rationals :: tifflike where
  "two_rationals =
     \<lparr>directories =
        [[282 \<mapsto> \<lparr>item_type = TIFF_RATIONAL, item_count = 1,
                   item_value = [1, 0, 0, 0, 2, 0, 0, 0]\<rparr>,
          283 \<mapsto> \<lparr>item_type = TIFF_RATIONAL, item_count = 1,
                   item_value = [1, 0, 0, 0, 0, 0, 0, 0]\<rparr>]]\<rparr>"

text \<open>
  A little-endian BigTIFF with one directory at offset 16, whose one entry is tag 282, one
  rational, 1/2, in the inline field. \<open>wrapping_count_file\<close> is the same file with the
  count \<open>0x8000000000000001\<close>, that is \<open>2 ^ 63 + 1\<close>, in the place of 1. \<open>far_rational_file\<close>
  is a little-endian classic TIFF with the same entry, whose eight bytes are at offset 26.
\<close>

definition big_rational_file :: stream where
  "big_rational_file =
     \<lparr>content = [0x49, 0x49, 43, 0, 8, 0, 0, 0, 16, 0, 0, 0, 0, 0, 0, 0,
                 1, 0, 0, 0, 0, 0, 0, 0,
                 0x1a, 1, 5, 0, 1, 0, 0, 0, 0, 0, 0, 0, 1, 0, 0, 0, 2, 0, 0, 0,
                 0, 0, 0, 0, 0, 0, 0, 0],
      pos = 0, seek_limit = 2 ^ 44\<rparr>"

definition wrapping_count_file :: stream where
  "wrapping_count_file =
     \<lparr>content = [0x49, 0x49, 43, 0, 8, 0, 0, 0, 16, 0, 0, 0, 0, 0, 0, 0,
                 1, 0, 0, 0, 0, 0, 0, 0,
                 0x1a, 1, 5, 0, 1, 0, 0, 0, 0, 0, 0, 0x80, 1, 0, 0, 0, 2, 0, 0, 0,
                 0, 0, 0, 0, 0, 0, 0, 0],
      pos = 0, seek_limit = 2 ^ 44\<rparr>"

definition far_rational_file :: stream where
  "far_rational_file =
     \<lparr>content = [0x49, 0x49, 42, 0, 8, 0, 0, 0,
                 1, 0,
                 0x1a, 1, 5, 0, 1, 0, 0, 0, 26, 0, 0, 0,
                 0, 0, 0, 0,
                 1, 0, 0, 0, 2, 0, 0, 0],
      pos = 0, seek_limit = 2 ^ 44\<rparr>"

text \<open>
  A model of two directories: the first is the one of \<open>two_shorts\<close>; the second holds tag
  257, one value of type Long8, \<open>0x201\<close>, and tag 258, two characters.
\<close>

definition two_directories :: tifflike where
  "two_directories =
     \<lparr>directories =
        [[256 \<mapsto> \<lparr>item_type = TIFF_SHORT, item_count = 2, item_value = [5, 0, 5, 1]\<rparr>],
         [257 \<mapsto> \<lparr>item_type = TIFF_LONG8, item_count = 1,
                   item_value = [1, 2, 0, 0, 0, 0, 0, 0]\<rparr>,
          258 \<mapsto> \<lparr>item_type = TIFF_ASCII, item_count = 2, item_value = [0x61, 0]\<rparr>]]\<rparr>"



text \<open>
  The heap with nothing allocated, and the file \<open>one_short_file\<close> with the count 0 in the
  place of 1.
\<close>

definition empty_heap :: heap where
  "empty_heap =
     \<lparr>tifflike_structs = 0, directory_arrays = 0, loop_detectors = 0, offset_keys = 0,
      directory_tables = 0, item_structs = 0, value_buffers = 0\<rparr>"

definition zero_count_file :: stream where
  "zero_count_file =
     \<lparr>content = [0x49, 0x49, 42, 0, 8, 0, 0, 0,
                 1, 0,
                 0, 1, 3, 0, 0, 0, 0, 0, 5, 0, 0, 0,
                 0, 0, 0, 0],
      pos = 0, seek_limit = 2 ^ 44\<rparr>"

text \<open>
  A BigTIFF file whose first directory is said to be at offset \<open>2 ^ 50\<close>, further than
  the stream can be moved.
\<close>

definition unseekable_file :: stream where
  "unseekable_file =
     \<lparr>content = [0x49, 0x49, 43, 0, 8, 0, 0, 0,
                 0, 0, 0, 0, 0, 0, 4, 0],
      pos = 0, seek_limit = 2 ^ 44\<rparr>"

section \<open>Properties\<close>

subsection \<open>Integers in memory\<close>

lemma le_nat_bound: "le_nat bs < 256 ^ length bs"
proof (induction bs)
  case Nil
  show ?case by simp
next
  case (Cons b bs)
  have "unat b < 256" using unsigned_less [of b] by simp
  with Cons show ?case by simp
qed

lemma load_native_bound: "load_native h bs < 256 ^ length bs"
  using le_nat_bound [of bs] le_nat_bound [of "rev bs"] by (simp add: load_native_def)

lemma load_elem_bound: "load_elem h v sz i < 256 ^ sz"
proof -
  have "load_elem h v sz i < 256 ^ length (take sz (drop (nat i * sz) v))"
    unfolding load_elem_def by (rule load_native_bound)
  also have "\<dots> \<le> (256::nat) ^ sz"
    by (rule power_increasing) simp_all
  finally show ?thesis .
qed

lemma ucast_of_nat_small:
  "x < 2 ^ LENGTH('a) \<Longrightarrow> (ucast (of_nat x :: 'a::len word) :: 'b::len word) = of_nat x"
  by (simp add: unsigned_of_nat take_bit_nat_eq_self)

lemma ucast_load_elem_1:
  "(ucast (of_nat (load_elem h v (Suc 0) i) :: 8 word) :: 64 word) = of_nat (load_elem h v (Suc 0) i)"
  using load_elem_bound [of h v "Suc 0" i] by (intro ucast_of_nat_small) simp

lemma ucast_load_elem_2:
  "(ucast (of_nat (load_elem h v 2 i) :: 16 word) :: 64 word) = of_nat (load_elem h v 2 i)"
  using load_elem_bound [of h v 2 i] by (intro ucast_of_nat_small) simp

lemma ucast_load_elem_4:
  "(ucast (of_nat (load_elem h v 4 i) :: 32 word) :: 64 word) = of_nat (load_elem h v 4 i)"
  using load_elem_bound [of h v 4 i] by (intro ucast_of_nat_small) simp

lemmas tiff_types =
  TIFF_BYTE_def TIFF_ASCII_def TIFF_SHORT_def TIFF_LONG_def TIFF_RATIONAL_def TIFF_SBYTE_def
  TIFF_UNDEFINED_def TIFF_SSHORT_def TIFF_SLONG_def TIFF_SRATIONAL_def TIFF_FLOAT_def
  TIFF_DOUBLE_def TIFF_IFD_def TIFF_LONG8_def TIFF_SLONG8_def TIFF_IFD8_def

subsection \<open>Accessors\<close>

lemma load_elem_word:
  assumes "sz \<le> 8"
  shows "unat (of_nat (load_elem h v sz i) :: 64 word) = load_elem h v sz i"
proof -
  have "load_elem h v sz i < 256 ^ sz" by (rule load_elem_bound)
  also have "\<dots> \<le> (256::nat) ^ 8" using assms by (intro power_increasing) simp_all
  finally show ?thesis by (simp add: unat_of_nat take_bit_nat_eq_self)
qed

text \<open>
  C7. Let \<open>dir\<close> be the index of a directory of the model, and look at what the table of
  that directory, \<open>directories tif ! nat dir\<close>, holds for the tag. When it holds an item
  whose type is Byte, Short, Long, Long8, IFD or IFD8 and \<open>0 \<le> i < count\<close>, \<open>get_uint\<close>
  returns element \<open>i\<close> of the value of that item, as the host reads it with the width of
  the type, as a number of 64 bits of the same value, and leaves the flag alone. When it
  holds an item of another type, or the index is out of range, or it holds no item, or
  \<open>dir\<close> is not the index of a directory, \<open>get_uint\<close> returns 0 and clears the flag.
\<close>

theorem get_uint_widens:
  "(0 \<le> dir \<and> dir < int (length (directories tif))
      \<and> (directories tif ! nat dir) tag = Some item
      \<and> 0 \<le> i \<and> i < item_count item \<and> is_uint_type (item_type item) \<longrightarrow>
        get_uint h tif dir tag i ok
          = (of_nat (load_elem h (item_value item) (uint_width (item_type item)) i), ok)
        \<and> unat (fst (get_uint h tif dir tag i ok))
          = load_elem h (item_value item) (uint_width (item_type item)) i)
   \<and> (0 \<le> dir \<and> dir < int (length (directories tif))
      \<and> (directories tif ! nat dir) tag = Some item
      \<and> \<not> (0 \<le> i \<and> i < item_count item \<and> is_uint_type (item_type item)) \<longrightarrow>
        get_uint h tif dir tag i ok = (0, clear_ok ok))
   \<and> (0 \<le> dir \<and> dir < int (length (directories tif))
      \<and> (directories tif ! nat dir) tag = None \<longrightarrow>
        get_uint h tif dir tag i ok = (0, clear_ok ok))
   \<and> (dir < 0 \<or> int (length (directories tif)) \<le> dir \<longrightarrow>
        get_uint h tif dir tag i ok = (0, clear_ok ok))
   \<and> clear_ok (Some b) = Some False \<and> clear_ok None = None"
proof -
  have p1: "0 \<le> dir \<and> dir < int (length (directories tif))
      \<and> (directories tif ! nat dir) tag = Some item
      \<and> 0 \<le> i \<and> i < item_count item \<and> is_uint_type (item_type item) \<longrightarrow>
        get_uint h tif dir tag i ok
          = (of_nat (load_elem h (item_value item) (uint_width (item_type item)) i), ok)
        \<and> unat (fst (get_uint h tif dir tag i ok))
          = load_elem h (item_value item) (uint_width (item_type item)) i"
  proof
    assume a: "0 \<le> dir \<and> dir < int (length (directories tif))
      \<and> (directories tif ! nat dir) tag = Some item
      \<and> 0 \<le> i \<and> i < item_count item \<and> is_uint_type (item_type item)"
    then have g: "get_uint h tif dir tag i ok
          = (of_nat (load_elem h (item_value item) (uint_width (item_type item)) i), ok)"
      by (auto simp: get_uint_def get_and_check_item_def get_item_def is_uint_type_def
          uint_width_def ucast_load_elem_1 ucast_load_elem_2 ucast_load_elem_4 tiff_types)
    have "uint_width (item_type item) \<le> 8"
      by (simp add: uint_width_def)
    then have "unat (of_nat (load_elem h (item_value item) (uint_width (item_type item)) i)
        :: 64 word) = load_elem h (item_value item) (uint_width (item_type item)) i"
      by (rule load_elem_word)
    with g show "get_uint h tif dir tag i ok
          = (of_nat (load_elem h (item_value item) (uint_width (item_type item)) i), ok)
        \<and> unat (fst (get_uint h tif dir tag i ok))
          = load_elem h (item_value item) (uint_width (item_type item)) i"
      by simp
  qed
  have p2: "0 \<le> dir \<and> dir < int (length (directories tif))
      \<and> (directories tif ! nat dir) tag = Some item
      \<and> \<not> (0 \<le> i \<and> i < item_count item \<and> is_uint_type (item_type item)) \<longrightarrow>
        get_uint h tif dir tag i ok = (0, clear_ok ok)"
    by (auto simp: get_uint_def get_and_check_item_def get_item_def is_uint_type_def
        tiff_types clear_ok_def split: option.splits)
  have p3: "0 \<le> dir \<and> dir < int (length (directories tif))
      \<and> (directories tif ! nat dir) tag = None \<longrightarrow>
        get_uint h tif dir tag i ok = (0, clear_ok ok)"
    by (simp add: get_uint_def get_and_check_item_def get_item_def)
  have p4: "dir < 0 \<or> int (length (directories tif)) \<le> dir \<longrightarrow>
        get_uint h tif dir tag i ok = (0, clear_ok ok)"
    by (auto simp: get_uint_def get_and_check_item_def get_item_def)
  have p5: "clear_ok (Some b) = Some False \<and> clear_ok None = None"
    by (simp add: clear_ok_def)
  show ?thesis by (intro conjI p1 p2 p3 p4 p5 [THEN conjunct1] p5 [THEN conjunct2])
qed

theorem get_uint_widens_witness:
  "get_uint little_endian_host two_directories 1 257 0 (Some True) = (0x201, Some True)
   \<and> get_uint little_endian_host two_directories 0 256 1 (Some True) = (261, Some True)
   \<and> get_uint big_endian_host two_directories 0 256 1 None = (0x501, None)
   \<and> get_uint little_endian_host two_directories 1 258 0 (Some True) = (0, Some False)
   \<and> get_uint little_endian_host two_directories 1 257 1 (Some True) = (0, Some False)
   \<and> get_uint little_endian_host two_directories 1 256 0 (Some True) = (0, Some False)
   \<and> get_uint little_endian_host two_directories 2 256 0 (Some True) = (0, Some False)"
proof -
  let ?short = "\<lparr>item_type = TIFF_SHORT, item_count = 2, item_value = [5, 0, 5, 1]\<rparr>"
  let ?long8 = "\<lparr>item_type = TIFF_LONG8, item_count = 1,
                 item_value = [1, 2, 0, 0, 0, 0, 0, 0]\<rparr>"
  let ?ascii = "\<lparr>item_type = TIFF_ASCII, item_count = 2, item_value = [0x61, 0]\<rparr>"
  note vocabulary = two_directories_def is_uint_type_def uint_width_def tiff_types
    load_elem_def load_native_def little_endian_host_def big_endian_host_def
  note inst = get_uint_widens [where tif = two_directories and b = True]
  have a: "get_uint little_endian_host two_directories 1 257 0 (Some True) = (0x201, Some True)"
    using inst [where h = little_endian_host and dir = 1 and tag = 257 and i = 0
        and item = ?long8 and ok = "Some True"]
    by (simp add: vocabulary)
  have b: "get_uint little_endian_host two_directories 0 256 1 (Some True) = (261, Some True)"
    using inst [where h = little_endian_host and dir = 0 and tag = 256 and i = 1
        and item = ?short and ok = "Some True"]
    by (simp add: vocabulary)
  have c: "get_uint big_endian_host two_directories 0 256 1 None = (0x501, None)"
    using inst [where h = big_endian_host and dir = 0 and tag = 256 and i = 1
        and item = ?short and ok = None]
    by (simp add: vocabulary)
  have d: "get_uint little_endian_host two_directories 1 258 0 (Some True) = (0, Some False)"
    using inst [where h = little_endian_host and dir = 1 and tag = 258 and i = 0
        and item = ?ascii and ok = "Some True"]
    by (simp add: vocabulary)
  have e: "get_uint little_endian_host two_directories 1 257 1 (Some True) = (0, Some False)"
    using inst [where h = little_endian_host and dir = 1 and tag = 257 and i = 1
        and item = ?long8 and ok = "Some True"]
    by (simp add: vocabulary)
  have f: "get_uint little_endian_host two_directories 1 256 0 (Some True) = (0, Some False)"
    using inst [where h = little_endian_host and dir = 1 and tag = 256 and i = 0
        and ok = "Some True"]
    by (simp add: vocabulary)
  have g: "get_uint little_endian_host two_directories 2 256 0 (Some True) = (0, Some False)"
    using inst [where h = little_endian_host and dir = 2 and tag = 256 and i = 0
        and ok = "Some True"]
    by (simp add: vocabulary)
  from a b c d e f g show ?thesis by (intro conjI)
qed

text \<open>
  C10. A directory index that is negative, or not below the number of directories, is
  handled like a missing tag: \<open>get_item\<close> finds nothing, without a look at the directories,
  and every accessor returns its sentinel (0, \<open>NAN\<close>, no buffer, count 0) and clears the
  flag where it has one.
\<close>

theorem bad_directory_index:
  assumes "dir < 0 \<or> dir \<ge> get_directory_count tif"
  shows "get_item tif dir tag = None
    \<and> get_uint h tif dir tag i ok = (0, clear_ok ok)
    \<and> get_sint h tif dir tag i ok = (0, clear_ok ok)
    \<and> get_float h tif dir tag i ok = (NAN, clear_ok ok)
    \<and> get_buffer tif dir tag = None
    \<and> get_value_count tif dir tag = 0
    \<and> clear_ok (Some b) = Some False"
  using assms
  by (auto simp: get_item_def get_directory_count_def get_uint_def get_sint_def get_float_def
        get_buffer_def get_value_count_def get_and_check_item_def clear_ok_def)

theorem bad_directory_index_witness:
  "get_directory_count two_shorts = 1
   \<and> get_uint little_endian_host two_shorts 1 256 0 (Some True) = (0, Some False)
   \<and> get_sint little_endian_host two_shorts 1 256 0 (Some True) = (0, Some False)
   \<and> get_float little_endian_host two_shorts (- 1) 256 0 (Some True) = (NAN, Some False)
   \<and> get_buffer two_shorts (- 1) 256 = None
   \<and> get_value_count two_shorts 1 256 = 0"
proof -
  have n: "get_directory_count two_shorts = 1"
    by (simp add: get_directory_count_def two_shorts_def)
  have hi: "(1::int) < 0 \<or> 1 \<ge> get_directory_count two_shorts"
    by (simp add: n)
  have lo: "(- 1::int) < 0 \<or> - 1 \<ge> get_directory_count two_shorts"
    by simp
  show ?thesis
    using n bad_directory_index [OF hi, of 256 little_endian_host 0 "Some True" True]
      bad_directory_index [OF lo, of 256 little_endian_host 0 "Some True" True]
    by (simp add: clear_ok_def)
qed

subsection \<open>Reading integers\<close>

text \<open>
  Whatever the byte order of the host, \<open>read_uint\<close> returns the number the bytes denote in
  the byte order of the file.
\<close>

lemma load_native_from_order:
  "load_native h (if big_endian then GUINT_FROM_BE h bs else GUINT_FROM_LE h bs)
     = file_uint big_endian bs"
  by (simp add: load_native_def GUINT_FROM_BE_def GUINT_FROM_LE_def file_uint_def)

lemma le_nat_rev_single: "length bs \<le> 1 \<Longrightarrow> le_nat (rev bs) = le_nat bs"
  by (cases bs) simp_all

lemma load_native_fix_byte_order:
  assumes "sz \<in> {1, 2, 4, 8}" and "length buf = nat sz"
  shows "load_native h (fix_byte_order h buf sz 1 big_endian) = file_uint big_endian buf"
proof (cases "sz = 1")
  case True
  with assms have "length buf \<le> 1" by simp
  then have "le_nat (rev buf) = le_nat buf" by (rule le_nat_rev_single)
  with True show ?thesis
    by (simp add: fix_byte_order_def load_native_def file_uint_def)
next
  case False
  with assms have "fix_byte_order h buf sz 1 big_endian
      = (if big_endian then GUINT_FROM_BE h buf else GUINT_FROM_LE h buf)"
    by (auto simp: fix_byte_order_def)
  then show ?thesis
    by (simp only: load_native_from_order)
qed

lemma read_uint_enough:
  assumes "sz \<in> {1, 2, 4, 8}" and "pos f + nat sz \<le> length (content f)"
  shows "read_uint h f sz big_endian ok
    = (of_nat (file_uint big_endian (bytes_at (content f) (pos f) (nat sz))), ok,
       f\<lparr>pos := pos f + nat sz\<rparr>)"
proof -
  from assms have nz: "nat sz \<noteq> 0" by auto
  have len: "length (take (nat sz) (drop (pos f) (content f))) = nat sz"
    using assms(2) by simp
  show ?thesis
    using assms(2) nz load_native_fix_byte_order [OF assms(1) len, of h big_endian]
    by (simp add: read_uint_def fread_def bytes_at_def)
qed

lemma read_uint_short:
  assumes "length (content f) < pos f + nat sz"
  shows "read_uint h f sz big_endian ok
    = (0, False, f\<lparr>pos := max (pos f) (length (content f))\<rparr>)"
  using assms by (auto simp: read_uint_def fread_def)

subsection \<open>The header\<close>

lemma two_bytes_eq:
  fixes a b x y :: byte
  shows "unat a + 256 * unat b = unat x + 256 * unat y \<longleftrightarrow> a = x \<and> b = y"
proof
  assume eq: "unat a + 256 * unat b = unat x + 256 * unat y"
  have lt: "unat a < 256" "unat x < 256"
    using unsigned_less [of a] unsigned_less [of x] by simp_all
  have "(unat a + 256 * unat b) mod 256 = unat a" "(unat a + 256 * unat b) div 256 = unat b"
    using lt by simp_all
  moreover have "(unat x + 256 * unat y) mod 256 = unat x" "(unat x + 256 * unat y) div 256 = unat y"
    using lt by simp_all
  ultimately have "unat a = unat x" "unat b = unat y"
    using eq by simp_all
  then show "a = x \<and> b = y" by (simp add: word_unat_eq_iff)
next
  assume "a = x \<and> b = y"
  then show "unat a + 256 * unat b = unat x + 256 * unat y" by simp
qed

lemma load_native_magic:
  assumes "length bs = 2"
  shows "load_native h bs = TIFF_BIGENDIAN \<longleftrightarrow> bs = [0x4d, 0x4d]"
    and "load_native h bs = TIFF_LITTLEENDIAN \<longleftrightarrow> bs = [0x49, 0x49]"
proof -
  from assms obtain a b where bs: "bs = [a, b]"
    by (cases bs; cases "tl bs") auto
  have be: "TIFF_BIGENDIAN = unat (0x4d :: byte) + 256 * unat (0x4d :: byte)"
    by (simp add: TIFF_BIGENDIAN_def)
  have le: "TIFF_LITTLEENDIAN = unat (0x49 :: byte) + 256 * unat (0x49 :: byte)"
    by (simp add: TIFF_LITTLEENDIAN_def)
  have "le_nat [a, b] = unat a + 256 * unat b" "le_nat [b, a] = unat b + 256 * unat a"
    by simp_all
  then have ln: "load_native h bs
      = (if host_big_endian h then unat b + 256 * unat a else unat a + 256 * unat b)"
    by (simp add: load_native_def bs)
  show "load_native h bs = TIFF_BIGENDIAN \<longleftrightarrow> bs = [0x4d, 0x4d]"
    unfolding be ln
    using two_bytes_eq [of a b "0x4d" "0x4d"] two_bytes_eq [of b a "0x4d" "0x4d"]
    by (cases "host_big_endian h") (simp_all only: bs if_True if_False list.inject, blast+)
  show "load_native h bs = TIFF_LITTLEENDIAN \<longleftrightarrow> bs = [0x49, 0x49]"
    unfolding le ln
    using two_bytes_eq [of a b "0x49" "0x49"] two_bytes_eq [of b a "0x49" "0x49"]
    by (cases "host_big_endian h") (simp_all only: bs if_True if_False list.inject, blast+)
qed

lemma read_uint_True:
  assumes "read_uint h f sz big_endian ok = (v, True, f')" and "sz \<in> {1, 2, 4, 8}"
  shows "ok \<and> pos f + nat sz \<le> length (content f)
    \<and> v = of_nat (file_uint big_endian (bytes_at (content f) (pos f) (nat sz)))
    \<and> f' = f\<lparr>pos := pos f + nat sz\<rparr>"
proof (cases "pos f + nat sz \<le> length (content f)")
  case True
  with assms show ?thesis by (simp add: read_uint_enough)
next
  case False
  then have "length (content f) < pos f + nat sz" by simp
  with assms show ?thesis by (simp add: read_uint_short)
qed

lemma read_uint_ok_mono:
  "read_uint h f sz big_endian False = (v, ok', f') \<Longrightarrow> \<not> ok'"
  by (auto simp: read_uint_def split: prod.splits option.splits)

lemma file_uint_bound: "file_uint big_endian bs < 256 ^ length bs"
  using le_nat_bound [of bs] le_nat_bound [of "rev bs"] by (simp add: file_uint_def)

lemma file_uint_bytes_at_bound: "file_uint big_endian (bytes_at c p n) < 256 ^ n"
proof -
  have "file_uint big_endian (bytes_at c p n) < 256 ^ length (bytes_at c p n)"
    by (rule file_uint_bound)
  also have "\<dots> \<le> (256::nat) ^ n"
    by (rule power_increasing) (simp_all add: bytes_at_def)
  finally show ?thesis .
qed

lemma ucast16_of_nat_eq:
  assumes "n < 65536" and "m < 65536"
  shows "(ucast (of_nat n :: 64 word) :: 16 word) = of_nat m \<longleftrightarrow> n = m"
proof -
  have "(ucast (of_nat n :: 64 word) :: 16 word) = of_nat n"
    using assms(1) by (intro ucast_of_nat_small) simp
  moreover have "(of_nat n :: 16 word) = of_nat m \<longleftrightarrow> n = m"
    using assms by (simp add: word_unat_eq_iff unat_of_nat)
  ultimately show ?thesis by simp
qed

lemma field16_eq:
  assumes "m < 65536"
  shows "(ucast (of_nat (file_uint be (bytes_at c p 2)) :: 64 word) :: 16 word) = of_nat m
     \<longleftrightarrow> file_uint be (bytes_at c p 2) = m"
  using file_uint_bytes_at_bound [of be c p 2] assms
  by (intro ucast16_of_nat_eq) simp_all

lemmas field16_numerals =
  field16_eq [of 0, simplified] field16_eq [of 8, simplified]
  field16_eq [of 42, simplified] field16_eq [of 43, simplified]

lemma header_errors:
  assumes "tifflike_header h f = Inl e"
  shows "\<exists>msg. e = Error FORMAT_NOT_SUPPORTED msg []"
  using assms
  by (auto simp: tifflike_header_def Let_def split: prod.splits option.splits if_splits)

lemma header_success:
  assumes "tifflike_header h f = Inr (be, bt, off, f')"
  shows "header_shape_ok (content f)
    \<and> be = (bytes_at (content f) 0 2 = [0x4d, 0x4d])
    \<and> bt = (file_uint be (bytes_at (content f) 2 2) = 43)
    \<and> off = of_nat (file_uint be (bytes_at (content f) (if bt then 8 else 4) (if bt then 8 else 4)))
    \<and> f' = f\<lparr>pos := (if bt then 16 else 8)\<rparr>"
proof -
  let ?c = "content f"
  let ?f0 = "f\<lparr>pos := 0\<rparr>"
  have f0: "snd (fseeko f 0) = ?f0" by (simp add: fseeko_def)
  show ?thesis
  proof (cases "2 \<le> length ?c")
    case False
    then have "fread ?f0 2 = (None, ?f0\<lparr>pos := max 0 (length ?c)\<rparr>)"
      by (simp add: fread_def)
    with assms f0 show ?thesis by (simp add: tifflike_header_def)
  next
    case True
    then have fr: "fread ?f0 2 = (Some (bytes_at ?c 0 2), ?f0\<lparr>pos := 2\<rparr>)"
      by (simp add: fread_def bytes_at_def)
    have len: "length (bytes_at ?c 0 2) = 2" using True by (simp add: bytes_at_def)
    note magic = load_native_magic [OF len, of h]
    show ?thesis
      using assms
      apply (simp add: tifflike_header_def f0 fr magic Let_def split: prod.splits if_splits)
       apply (elim conjE)
       apply (drule read_uint_True, simp)
       apply (elim conjE)
       apply simp
       apply (drule read_uint_True, simp)
       apply (elim conjE)
       apply simp
       apply (drule read_uint_True, simp)
       apply (elim conjE)
       apply simp
       apply (drule read_uint_True, simp)
       apply (simp add: header_shape_ok_def TIFF_VERSION_BIG_def field16_numerals)
       apply blast
      apply (elim conjE)
      apply (drule read_uint_True, simp)
      apply (elim conjE)
      apply simp
      apply (drule read_uint_True, simp)
      apply (simp add: header_shape_ok_def TIFF_VERSION_BIG_def TIFF_VERSION_CLASSIC_def
          field16_numerals)
      apply blast
      done
  qed
qed


lemma header_accepts:
  assumes "header_shape_ok (content f)"
  shows "\<exists>be bt off f'. tifflike_header h f = Inr (be, bt, off, f')"
proof -
  let ?c = "content f"
  let ?f0 = "f\<lparr>pos := 0\<rparr>"
  have f0: "snd (fseeko f 0) = ?f0" by (simp add: fseeko_def)
  from assms have magic_ok: "bytes_at ?c 0 2 = [0x49, 0x49] \<or> bytes_at ?c 0 2 = [0x4d, 0x4d]"
    and len8: "8 \<le> length ?c"
    by (auto simp: header_shape_ok_def Let_def)
  then have fr: "fread ?f0 2 = (Some (bytes_at ?c 0 2), ?f0\<lparr>pos := 2\<rparr>)"
    by (simp add: fread_def bytes_at_def)
  have len: "length (bytes_at ?c 0 2) = 2" using len8 by (simp add: bytes_at_def)
  note magic = load_native_magic [OF len, of h]
  define be where "be = (bytes_at ?c 0 2 = [0x4d, 0x4d])"
  have r1: "read_uint h (f\<lparr>pos := 2\<rparr>) 2 be True
      = (of_nat (file_uint be (bytes_at ?c 2 2)), True, f\<lparr>pos := 4\<rparr>)"
    using len8 by (simp add: read_uint_enough)
  show ?thesis
  proof (cases "file_uint be (bytes_at ?c 2 2) = 43")
    case False
    with assms have v: "file_uint be (bytes_at ?c 2 2) = 42"
      by (auto simp: header_shape_ok_def Let_def be_def)
    have r2: "read_uint h (f\<lparr>pos := 4\<rparr>) 4 be True
      = (of_nat (file_uint be (bytes_at ?c 4 4)), True, f\<lparr>pos := 8\<rparr>)"
      using len8 by (simp add: read_uint_enough)
    show ?thesis
      using magic_ok v
      by (auto simp: tifflike_header_def f0 fr magic Let_def be_def [symmetric] r1 r2
          TIFF_VERSION_BIG_def TIFF_VERSION_CLASSIC_def field16_numerals)
  next
    case True
    with assms have big: "file_uint be (bytes_at ?c 4 2) = 8" "file_uint be (bytes_at ?c 6 2) = 0"
      "16 \<le> length ?c"
      by (auto simp: header_shape_ok_def Let_def be_def)
    have r2: "read_uint h (f\<lparr>pos := 4\<rparr>) 2 be True
      = (of_nat (file_uint be (bytes_at ?c 4 2)), True, f\<lparr>pos := 6\<rparr>)"
      using big by (simp add: read_uint_enough)
    have r3: "read_uint h (f\<lparr>pos := 6\<rparr>) 2 be True
      = (of_nat (file_uint be (bytes_at ?c 6 2)), True, f\<lparr>pos := 8\<rparr>)"
      using big by (simp add: read_uint_enough)
    have r4: "read_uint h (f\<lparr>pos := 8\<rparr>) 8 be True
      = (of_nat (file_uint be (bytes_at ?c 8 8)), True, f\<lparr>pos := 16\<rparr>)"
      using big by (simp add: read_uint_enough)
    have v16: "(ucast (of_nat (file_uint be (bytes_at ?c 2 2)) :: 64 word) :: 16 word) = 43"
      using True by (simp add: field16_numerals)
    have o16: "(ucast (of_nat (file_uint be (bytes_at ?c 4 2)) :: 64 word) :: 16 word) = 8"
      using big by (simp add: field16_numerals)
    have p16: "(ucast (of_nat (file_uint be (bytes_at ?c 6 2)) :: 64 word) :: 16 word) = 0"
      using big by (simp add: field16_numerals)
    show ?thesis
      using magic_ok
      by (auto simp: tifflike_header_def f0 fr magic Let_def be_def [symmetric] r1 r2 r3 r4
          TIFF_VERSION_BIG_def v16 o16 p16)
  qed
qed

lemma entry_error_kind:
  "read_directory_entry h f bigtiff big_endian = Inl (Error k m a) \<Longrightarrow> k = BAD_DATA"
  by (auto simp: read_directory_entry_def Let_def split: prod.splits option.splits if_splits)

lemma entries_error_kind:
  "read_directory_entries h bigtiff big_endian n f d = Inl (Error k m a) \<Longrightarrow> k = BAD_DATA"
proof (induction n arbitrary: f d)
  case 0
  then show ?case by simp
next
  case (Suc n)
  then show ?case
    by (auto split: sum.splits prod.splits dest: entry_error_kind)
qed

lemma directory_error_kind:
  "read_directory h f off ld bigtiff big_endian = Inl (Error k m a) \<Longrightarrow> k \<noteq> FORMAT_NOT_SUPPORTED"
  by (auto simp: read_directory_def Let_def
      split: prod.splits option.splits if_splits bool.splits sum.splits
      dest: entries_error_kind)

lemma directories_error_kind:
  "read_directories h f off ld bigtiff big_endian dirs = Inl (Error k m a)
     \<Longrightarrow> k \<noteq> FORMAT_NOT_SUPPORTED"
proof (induction h f off ld bigtiff big_endian dirs rule: read_directories.induct)
  case (1 h f diroff loop_detector bigtiff big_endian dirs)
  show ?case
  proof (cases "diroff = 0")
    case True
    with "1.prems" show ?thesis by (simp add: read_directories.simps)
  next
    case False
    note simps = read_directories.simps [of h f diroff loop_detector bigtiff big_endian dirs]
    show ?thesis
    proof (cases "read_directory h f diroff loop_detector bigtiff big_endian")
      case (Inl e)
      with False "1.prems" have "e = Error k m a"
        by (simp add: simps)
      with Inl show ?thesis
        by (auto dest: directory_error_kind)
    next
      case (Inr r)
      obtain ht diroff' f' ld' where r: "r = (ht, diroff', f', ld')"
        by (cases r) auto
      from False Inr r "1.prems"
      have "read_directories h f' diroff' ld' bigtiff big_endian (dirs @ [ht]) = Inl (Error k m a)"
        by (simp add: simps)
      with "1.IH" [OF False Inr [unfolded r] refl refl refl] show ?thesis by simp
    qed
  qed
qed

text \<open>
  C5. \<open>_openslide_tifflike_create\<close> fails with \<open>FORMAT_NOT_SUPPORTED\<close> exactly on the files
  whose header has not one of the two shapes: the marker is neither \<open>II\<close> nor \<open>MM\<close>, the
  version is neither 42 nor 43, a BigTIFF header has an offset size other than 8 or a
  reserved field other than 0, or the header is cut short. In each of these cases the
  result is the error, and no model.
\<close>

theorem header_rejection:
  "(\<exists>msg. tifflike_create h f = Inl (Error FORMAT_NOT_SUPPORTED msg []))
     \<longleftrightarrow> \<not> header_shape_ok (content f)"
proof
  assume "\<exists>msg. tifflike_create h f = Inl (Error FORMAT_NOT_SUPPORTED msg [])"
  then obtain msg where c: "tifflike_create h f = Inl (Error FORMAT_NOT_SUPPORTED msg [])" ..
  show "\<not> header_shape_ok (content f)"
  proof
    assume "header_shape_ok (content f)"
    then obtain be bt off f' where hd: "tifflike_header h f = Inr (be, bt, off, f')"
      using header_accepts by blast
    with c show False
      by (auto simp: tifflike_create_def split: sum.splits prod.splits if_splits
          dest: directories_error_kind)
  qed
next
  assume bad: "\<not> header_shape_ok (content f)"
  show "\<exists>msg. tifflike_create h f = Inl (Error FORMAT_NOT_SUPPORTED msg [])"
  proof (cases "tifflike_header h f")
    case (Inl e)
    then obtain msg where "e = Error FORMAT_NOT_SUPPORTED msg []"
      using header_errors by blast
    with Inl show ?thesis by (simp add: tifflike_create_def)
  next
    case (Inr r)
    obtain be bt off f' where "r = (be, bt, off, f')" by (cases r) auto
    with Inr bad header_success show ?thesis by blast
  qed
qed

theorem header_rejection_witness:
  "\<not> header_shape_ok (content bad_magic_file)
   \<and> (\<exists>msg. tifflike_create little_endian_host bad_magic_file
               = Inl (Error FORMAT_NOT_SUPPORTED msg []))
   \<and> \<not> header_shape_ok (content bad_offset_size_file)
   \<and> (\<exists>msg. tifflike_create big_endian_host bad_offset_size_file
               = Inl (Error FORMAT_NOT_SUPPORTED msg []))
   \<and> header_shape_ok (content one_short_file)
   \<and> \<not> (\<exists>msg. tifflike_create little_endian_host one_short_file
               = Inl (Error FORMAT_NOT_SUPPORTED msg []))"
proof -
  have a: "\<not> header_shape_ok (content bad_magic_file)"
    by (simp add: header_shape_ok_def bad_magic_file_def bytes_at_def)
  have b: "\<not> header_shape_ok (content bad_offset_size_file)"
    by (simp add: header_shape_ok_def bad_offset_size_file_def bytes_at_def file_uint_def)
  have c: "header_shape_ok (content one_short_file)"
    by (simp add: header_shape_ok_def one_short_file_def bytes_at_def file_uint_def)
  show ?thesis
    using a b c header_rejection [of little_endian_host bad_magic_file]
      header_rejection [of big_endian_host bad_offset_size_file]
      header_rejection [of little_endian_host one_short_file]
    by simp
qed

subsection \<open>The directory walk\<close>

lemma reaches_continue:
  assumes "walk_reaches h bt be (f, off, ld) (f1, off1, ld1) ds"
  shows "read_directories h f off ld bt be dirs = read_directories h f1 off1 ld1 bt be (dirs @ ds)"
  using assms
proof (induction "(f, off, ld)" "(f1, off1, ld1)" ds arbitrary: f1 off1 ld1 rule: walk_reaches.induct)
  case start
  then show ?case by simp
next
  case (step f1 off1 ld1 ds d off2 f2 ld2)
  have "read_directories h f off ld bt be dirs = read_directories h f1 off1 ld1 bt be (dirs @ ds)"
    by (rule step.hyps(2)) 
  also have "\<dots> = read_directories h f2 off2 ld2 bt be ((dirs @ ds) @ [d])"
    using step.hyps(3,4) by (simp add: read_directories.simps [of h f1 off1])
  finally show ?case by simp
qed

lemma reaches_trans:
  assumes "walk_reaches h bt be t u ds'" and "walk_reaches h bt be s t ds"
  shows "walk_reaches h bt be s u (ds @ ds')"
  using assms
proof (induction rule: walk_reaches.induct)
  case (start t)
  then show ?case by simp
next
  case (step t f1 off1 ld1 ds1 d off2 f2 ld2)
  from step.IH [OF step.prems] have "walk_reaches h bt be s (f1, off1, ld1) (ds @ ds1)" .
  from walk_reaches.step [OF this step.hyps(2,3)] show ?case by simp
qed

lemma reaches_of_success:
  assumes "read_directories h f off ld bt be dirs = Inr (dirs', ld', f')"
  shows "\<exists>ds. dirs' = dirs @ ds \<and> walk_reaches h bt be (f, off, ld) (f', 0, ld') ds"
  using assms
proof (induction h f off ld bt be dirs rule: read_directories.induct)
  case (1 h f diroff loop_detector bigtiff big_endian dirs)
  note simps = read_directories.simps [of h f diroff loop_detector bigtiff big_endian dirs]
  show ?case
  proof (cases "diroff = 0")
    case True
    with "1.prems" have "dirs' = dirs" "ld' = loop_detector" "f' = f"
      by (simp_all add: read_directories.simps [of h f 0])
    with True walk_reaches.start [of h bigtiff big_endian "(f, 0, loop_detector)"]
    show ?thesis by simp
  next
    case False
    show ?thesis
    proof (cases "read_directory h f diroff loop_detector bigtiff big_endian")
      case (Inl e)
      with False "1.prems" show ?thesis by (simp add: simps)
    next
      case (Inr r)
      obtain ht diroff' f1 ld1 where r: "r = (ht, diroff', f1, ld1)"
        by (cases r) auto
      from False Inr r "1.prems"
      have "read_directories h f1 diroff' ld1 bigtiff big_endian (dirs @ [ht]) = Inr (dirs', ld', f')"
        by (simp add: simps)
      from "1.IH" [OF False Inr [unfolded r] refl refl refl this]
      obtain ds where ds: "dirs' = (dirs @ [ht]) @ ds"
        and re: "walk_reaches h bigtiff big_endian (f1, diroff', ld1) (f', 0, ld') ds"
        by blast
      have "walk_reaches h bigtiff big_endian (f, diroff, loop_detector) (f1, diroff', ld1) ([] @ [ht])"
        using False Inr [unfolded r] by (intro walk_reaches.step [OF walk_reaches.start])
      from reaches_trans [OF re this] ds show ?thesis by auto
    qed
  qed
qed

lemma read_directory_success:
  assumes "read_directory h f off ld bt be = Inr (d, off', f', ld')"
  shows "0 < sint off \<and> off \<notin> ld \<and> ld' = insert off ld"
  using assms
  by (auto simp: read_directory_def Let_def split: if_splits prod.splits sum.splits bool.splits)

lemma reaches_visited:
  assumes "walk_reaches h bt be (f, off, ld) (f1, off1, ld1) ds"
  shows "ld \<subseteq> ld1 \<and> card ld1 = card ld + length ds \<and> (ds \<noteq> [] \<longrightarrow> off \<in> ld1)"
  using assms
proof (induction "(f, off, ld)" "(f1, off1, ld1)" ds arbitrary: f1 off1 ld1 rule: walk_reaches.induct)
  case start
  then show ?case by simp
next
  case (step f1 off1 ld1 ds d off2 f2 ld2)
  from step.hyps(2) have ih: "ld \<subseteq> ld1" "card ld1 = card ld + length ds" "ds \<noteq> [] \<longrightarrow> off \<in> ld1"
    by simp_all
  from read_directory_success [OF step.hyps(4)]
  have new: "off1 \<notin> ld1" and ins: "ld2 = insert off1 ld1" by simp_all
  have first: "ds = [] \<Longrightarrow> off1 = off"
    using step.hyps(1) by (auto elim: walk_reaches.cases)
  have "card ld2 = Suc (card ld1)"
    using new ins by simp
  with ih ins first show ?case by auto
qed


lemma read_directory_bad_offset:
  "sint off \<le> 0 \<Longrightarrow> read_directory h f off ld bt be = Inl (Error BAD_DATA ''Bad offset'' [])"
  by (simp add: read_directory_def)

lemma read_directory_loop:
  "0 < sint off \<Longrightarrow> off \<in> ld \<Longrightarrow>
     read_directory h f off ld bt be = Inl (Error BAD_DATA ''Loop detected'' [])"
  by (simp add: read_directory_def)

lemma read_directories_failure:
  assumes "off \<noteq> 0" and "read_directory h f off ld bt be = Inl e"
  shows "read_directories h f off ld bt be dirs = Inl e"
  using assms by (simp add: read_directories.simps [of h f off])

lemma sint_neg_nonzero: "sint (off :: 64 word) < 0 \<Longrightarrow> off \<noteq> 0"
  by auto

lemma sint_pos_nonzero: "0 < sint (off :: 64 word) \<Longrightarrow> off \<noteq> 0"
  by auto

text \<open>
  The loop is left before its condition has been tested more often than there are
  offsets outside the loop detector, plus one.
\<close>

lemma read_directories_within_bound:
  assumes "card (- ld) < n"
  shows "read_directories_bounded n h f off ld bt be dirs
    = Some (read_directories h f off ld bt be dirs)"
  using assms
proof (induction n arbitrary: f off ld dirs)
  case 0
  then show ?case by simp
next
  case (Suc n)
  note simps = read_directories.simps [of h f off ld bt be dirs]
  show ?case
  proof (cases "off = 0")
    case True
    then show ?thesis by (simp add: read_directories.simps [of h f 0])
  next
    case False
    show ?thesis
    proof (cases "read_directory h f off ld bt be")
      case (Inl e)
      with False show ?thesis by (simp add: simps)
    next
      case (Inr r)
      obtain ht off' f' ld' where r: "r = (ht, off', f', ld')"
        by (cases r) auto
      from read_directory_success [OF Inr [unfolded r]]
      have new: "off \<notin> ld" and ins: "ld' = insert off ld" by simp_all
      then have "- ld' \<subset> - ld" by auto
      then have "card (- ld') < card (- ld)"
        by (simp add: psubset_card_mono)
      with Suc.prems have "card (- ld') < n" by simp
      from Suc.IH [OF this]
      have "read_directories_bounded n h f' off' ld' bt be (dirs @ [ht])
          = Some (read_directories h f' off' ld' bt be (dirs @ [ht]))" .
      with False Inr r show ?thesis by (simp add: simps)
    qed
  qed
qed

subsection \<open>The example files, evaluated\<close>

lemmas eval_defs = tifflike_header_def read_directory_def read_directory_entry_def
  read_uint_def read_tiff_value_def fix_byte_order_def fread_def fseeko_def ftello_def
  load_native_def GUINT_FROM_BE_def GUINT_FROM_LE_def value_size_and_count_def
  TIFF_BIGENDIAN_def TIFF_LITTLEENDIAN_def TIFF_VERSION_BIG_def TIFF_VERSION_CLASSIC_def
  tiff_types SSIZE_MAX_def Let_def little_endian_host_def big_endian_host_def

lemma one_short_header:
  "tifflike_header little_endian_host one_short_file
     = Inr (False, False, 8, one_short_file\<lparr>pos := 8\<rparr>)"
  by (simp add: eval_defs one_short_file_def)

lemma one_short_directory:
  "read_directory little_endian_host (one_short_file\<lparr>pos := 8\<rparr>) 8 {} False False
     = Inr ([256 \<mapsto> \<lparr>item_type = 3, item_count = 1, item_value = [5, 0]\<rparr>], 0,
            one_short_file\<lparr>pos := 26\<rparr>, {8})"
  by (simp add: eval_defs one_short_file_def)

lemma one_short_reaches:
  "walk_reaches little_endian_host False False
     (one_short_file\<lparr>pos := 8\<rparr>, 8, {}) (one_short_file\<lparr>pos := 26\<rparr>, 0, {8})
     [[256 \<mapsto> \<lparr>item_type = 3, item_count = 1, item_value = [5, 0]\<rparr>]]"
  using walk_reaches.step [OF walk_reaches.start _ one_short_directory] by simp

lemma one_short_directories:
  "read_directories little_endian_host (one_short_file\<lparr>pos := 8\<rparr>) 8 {} False False []
     = Inr ([[256 \<mapsto> \<lparr>item_type = 3, item_count = 1, item_value = [5, 0]\<rparr>]], {8},
            one_short_file\<lparr>pos := 26\<rparr>)"
  using reaches_continue [OF one_short_reaches, of "[]"]
  by (simp add: read_directories.simps [of _ _ 0])

lemma one_short_create:
  "tifflike_create little_endian_host one_short_file
     = Inr \<lparr>directories =
              [[256 \<mapsto> \<lparr>item_type = 3, item_count = 1, item_value = [5, 0]\<rparr>]]\<rparr>"
  by (simp add: tifflike_create_def one_short_header one_short_directories)

lemma cycle_header:
  "tifflike_header big_endian_host cycle_file = Inr (True, False, 8, cycle_file\<lparr>pos := 8\<rparr>)"
  by (simp add: eval_defs cycle_file_def)

lemma cycle_first:
  "read_directory big_endian_host (cycle_file\<lparr>pos := 8\<rparr>) 8 {} False True
     = Inr (Map.empty, 14, cycle_file\<lparr>pos := 14\<rparr>, {8})"
  by (simp add: eval_defs cycle_file_def)

lemma cycle_second:
  "read_directory big_endian_host (cycle_file\<lparr>pos := 14\<rparr>) 14 {8} False True
     = Inr (Map.empty, 8, cycle_file\<lparr>pos := 20\<rparr>, {14, 8})"
  by (simp add: eval_defs cycle_file_def)

lemma cycle_reaches:
  "walk_reaches big_endian_host False True
     (cycle_file\<lparr>pos := 8\<rparr>, 8, {}) (cycle_file\<lparr>pos := 20\<rparr>, 8, {14, 8})
     [Map.empty, Map.empty]"
  using walk_reaches.step [OF walk_reaches.step [OF walk_reaches.start _ cycle_first]
      _ cycle_second]
  by simp

lemma negative_offset_header:
  "tifflike_header little_endian_host negative_offset_file
     = Inr (False, True, - 1, negative_offset_file\<lparr>pos := 16\<rparr>)"
  by (simp add: eval_defs negative_offset_file_def)

lemma no_directory_header:
  "tifflike_header little_endian_host no_directory_file
     = Inr (False, False, 0, no_directory_file\<lparr>pos := 8\<rparr>)"
  by (simp add: eval_defs no_directory_file_def)

lemma bad_magic_header:
  "tifflike_header little_endian_host bad_magic_file
     = Inl (Error FORMAT_NOT_SUPPORTED ''Unrecognized TIFF magic number'' [])"
  by (simp add: eval_defs bad_magic_file_def)

lemma bad_second_header:
  "tifflike_header little_endian_host bad_second_directory_file
     = Inr (False, False, 8, bad_second_directory_file\<lparr>pos := 8\<rparr>)"
  by (simp add: eval_defs bad_second_directory_file_def)

lemma bad_second_first:
  "read_directory little_endian_host (bad_second_directory_file\<lparr>pos := 8\<rparr>) 8 {} False False
     = Inr ([256 \<mapsto> \<lparr>item_type = 3, item_count = 1, item_value = [5, 0]\<rparr>], 26,
            bad_second_directory_file\<lparr>pos := 26\<rparr>, {8})"
  by (simp add: eval_defs bad_second_directory_file_def)

lemma bad_second_second:
  "read_directory little_endian_host (bad_second_directory_file\<lparr>pos := 26\<rparr>) 26 {8}
       False False
     = Inl (Error BAD_DATA ''Unknown type encountered: %d'' [99])"
  by (simp add: eval_defs bad_second_directory_file_def)

lemma bad_second_reaches:
  "walk_reaches little_endian_host False False
     (bad_second_directory_file\<lparr>pos := 8\<rparr>, 8, {})
     (bad_second_directory_file\<lparr>pos := 26\<rparr>, 26, {8})
     [[256 \<mapsto> \<lparr>item_type = 3, item_count = 1, item_value = [5, 0]\<rparr>]]"
  using walk_reaches.step [OF walk_reaches.start _ bad_second_first] by simp

subsection \<open>Offsets of directories\<close>

text \<open>
  C6. \<open>read_directory\<close> fails with \<open>BAD_DATA\<close>, "Bad offset", on every offset that is zero
  or negative. In the walk the offset 0 never gets there: a negative first or next offset
  fails with "Bad offset", whatever was read before it; a next offset of 0 ends the chain
  with the directories read so far; and a first offset of 0 gives no directory at all,
  which fails with "TIFF contains no directories".
\<close>

theorem bad_offset:
  "(sint off \<le> 0 \<longrightarrow>
      read_directory h f off ld bt be = Inl (Error BAD_DATA ''Bad offset'' []))
   \<and> (walk_reaches h bt be (f, off, ld) (f1, off1, ld1) ds \<and> sint off1 < 0 \<longrightarrow>
      read_directories h f off ld bt be dirs = Inl (Error BAD_DATA ''Bad offset'' []))
   \<and> (walk_reaches h bt be (f, off, ld) (f1, 0, ld1) ds \<longrightarrow>
      read_directories h f off ld bt be dirs = Inr (dirs @ ds, ld1, f1))
   \<and> (tifflike_header h f0 = Inr (be, bt, off0, f) \<and> sint off0 < 0 \<longrightarrow>
      tifflike_create h f0 = Inl (Error BAD_DATA ''Bad offset'' []))
   \<and> (tifflike_header h f0 = Inr (be, bt, 0, f) \<longrightarrow>
      tifflike_create h f0 = Inl (Error BAD_DATA ''TIFF contains no directories'' []))"
proof -
  have p1: "sint off \<le> 0 \<longrightarrow>
      read_directory h f off ld bt be = Inl (Error BAD_DATA ''Bad offset'' [])"
  proof
    assume "sint off \<le> 0"
    then show "read_directory h f off ld bt be = Inl (Error BAD_DATA ''Bad offset'' [])"
      by (rule read_directory_bad_offset)
  qed
  have p2: "walk_reaches h bt be (f, off, ld) (f1, off1, ld1) ds \<and> sint off1 < 0 \<longrightarrow>
      read_directories h f off ld bt be dirs = Inl (Error BAD_DATA ''Bad offset'' [])"
  proof
    assume a: "walk_reaches h bt be (f, off, ld) (f1, off1, ld1) ds \<and> sint off1 < 0"
    then have "read_directory h f1 off1 ld1 bt be = Inl (Error BAD_DATA ''Bad offset'' [])"
      by (intro read_directory_bad_offset) simp
    with a have "read_directories h f1 off1 ld1 bt be (dirs @ ds) = Inl (Error BAD_DATA ''Bad offset'' [])"
      by (intro read_directories_failure sint_neg_nonzero) simp_all
    with a show "read_directories h f off ld bt be dirs = Inl (Error BAD_DATA ''Bad offset'' [])"
      using reaches_continue [of h bt be f off ld f1 off1 ld1 ds dirs] by simp
  qed
  have p3: "walk_reaches h bt be (f, off, ld) (f1, 0, ld1) ds \<longrightarrow>
      read_directories h f off ld bt be dirs = Inr (dirs @ ds, ld1, f1)"
  proof
    assume "walk_reaches h bt be (f, off, ld) (f1, 0, ld1) ds"
    then have "read_directories h f off ld bt be dirs = read_directories h f1 0 ld1 bt be (dirs @ ds)"
      by (rule reaches_continue)
    then show "read_directories h f off ld bt be dirs = Inr (dirs @ ds, ld1, f1)"
      by (simp add: read_directories.simps [of h f1 0])
  qed
  have p4: "tifflike_header h f0 = Inr (be, bt, off0, f) \<and> sint off0 < 0 \<longrightarrow>
      tifflike_create h f0 = Inl (Error BAD_DATA ''Bad offset'' [])"
  proof
    assume a: "tifflike_header h f0 = Inr (be, bt, off0, f) \<and> sint off0 < 0"
    then have "read_directory h f off0 {} bt be = Inl (Error BAD_DATA ''Bad offset'' [])"
      by (intro read_directory_bad_offset) simp
    with a have "read_directories h f off0 {} bt be [] = Inl (Error BAD_DATA ''Bad offset'' [])"
      by (intro read_directories_failure sint_neg_nonzero) simp_all
    with a show "tifflike_create h f0 = Inl (Error BAD_DATA ''Bad offset'' [])"
      by (simp add: tifflike_create_def)
  qed
  have p5: "tifflike_header h f0 = Inr (be, bt, 0, f) \<longrightarrow>
      tifflike_create h f0 = Inl (Error BAD_DATA ''TIFF contains no directories'' [])"
  proof
    assume "tifflike_header h f0 = Inr (be, bt, 0, f)"
    then show "tifflike_create h f0 = Inl (Error BAD_DATA ''TIFF contains no directories'' [])"
      by (simp add: tifflike_create_def read_directories.simps [of h f 0])
  qed
  show ?thesis
    by (intro conjI p1 p2 p3 p4 p5)
qed

theorem bad_offset_witness:
  "read_directory little_endian_host one_short_file 0 {} False False
     = Inl (Error BAD_DATA ''Bad offset'' [])
   \<and> read_directories little_endian_host one_short_file (- 1) {} False False []
     = Inl (Error BAD_DATA ''Bad offset'' [])
   \<and> read_directories little_endian_host (one_short_file\<lparr>pos := 8\<rparr>) 8 {} False False []
     = Inr ([[256 \<mapsto> \<lparr>item_type = 3, item_count = 1, item_value = [5, 0]\<rparr>]], {8},
            one_short_file\<lparr>pos := 26\<rparr>)
   \<and> tifflike_create little_endian_host negative_offset_file
     = Inl (Error BAD_DATA ''Bad offset'' [])
   \<and> tifflike_create little_endian_host no_directory_file
     = Inl (Error BAD_DATA ''TIFF contains no directories'' [])"
proof -
  note inst = bad_offset [where h = little_endian_host and bt = False and be = False]
  have neg: "sint (- 1 :: 64 word) < 0" by simp
  have a: "read_directory little_endian_host one_short_file 0 {} False False
      = Inl (Error BAD_DATA ''Bad offset'' [])"
    using inst [where off = 0 and f = one_short_file and ld = "{}"] by simp
  have b: "read_directories little_endian_host one_short_file (- 1) {} False False []
      = Inl (Error BAD_DATA ''Bad offset'' [])"
    using inst [where off = "- 1" and f = one_short_file and ld = "{}" and dirs = "[]"
        and ?f1.0 = one_short_file and ?off1.0 = "- 1" and ?ld1.0 = "{}" and ds = "[]"]
      walk_reaches.start [of little_endian_host False False "(one_short_file, - 1, {})"] neg
    by simp
  have c: "read_directories little_endian_host (one_short_file\<lparr>pos := 8\<rparr>) 8 {} False False []
      = Inr ([[256 \<mapsto> \<lparr>item_type = 3, item_count = 1, item_value = [5, 0]\<rparr>]], {8},
            one_short_file\<lparr>pos := 26\<rparr>)"
    using inst [where off = 8 and f = "one_short_file\<lparr>pos := 8\<rparr>" and ld = "{}" and dirs = "[]"
        and ?f1.0 = "one_short_file\<lparr>pos := 26\<rparr>" and ?ld1.0 = "{8}"
        and ds = "[[256 \<mapsto> \<lparr>item_type = 3, item_count = 1, item_value = [5, 0]\<rparr>]]"]
      one_short_reaches
    by simp
  have d: "tifflike_create little_endian_host negative_offset_file
      = Inl (Error BAD_DATA ''Bad offset'' [])"
    using bad_offset [where h = little_endian_host and bt = True and be = False
        and ?f0.0 = negative_offset_file and ?off0.0 = "- 1"
        and f = "negative_offset_file\<lparr>pos := 16\<rparr>"]
      negative_offset_header neg
    by simp
  have e: "tifflike_create little_endian_host no_directory_file
      = Inl (Error BAD_DATA ''TIFF contains no directories'' [])"
    using inst [where ?f0.0 = no_directory_file and f = "no_directory_file\<lparr>pos := 8\<rparr>"]
      no_directory_header
    by simp
  from a b c d e show ?thesis by (intro conjI)
qed

text \<open>
  C2. The walk ends on every input: \<open>read_directories\<close> is a total function, whose
  recursion descends along the offsets the loop detector does not hold yet, and the loop
  with a bound on its rounds is left within the bound when the bound exceeds the number
  of these offsets. Every
  directory read adds one offset to the detector, so the directories read are as many as
  the offsets added, each offset is read at most once, and the first offset is in the
  detector once a directory has been read. When the walk comes to a positive offset that
  the detector holds, after any number of directories, it fails with \<open>BAD_DATA\<close>, "Loop
  detected".
\<close>

theorem no_revisit:
  "(card (- ld) < n \<longrightarrow>
      read_directories_bounded n h f off ld bt be dirs
        = Some (read_directories h f off ld bt be dirs))
   \<and> (walk_reaches h bt be (f, off, ld) (f1, off1, ld1) ds \<and> 0 < sint off1 \<and> off1 \<in> ld1 \<longrightarrow>
      read_directories h f off ld bt be dirs = Inl (Error BAD_DATA ''Loop detected'' []))
   \<and> (walk_reaches h bt be (f, off, ld) (f1, off1, ld1) ds \<longrightarrow>
      ld \<subseteq> ld1 \<and> card ld1 = card ld + length ds \<and> (ds \<noteq> [] \<longrightarrow> off \<in> ld1))
   \<and> (read_directories h f off ld bt be dirs = Inr (dirs', ld', f') \<longrightarrow>
      (\<exists>ds. dirs' = dirs @ ds \<and> walk_reaches h bt be (f, off, ld) (f', 0, ld') ds
            \<and> card ld' = card ld + length ds))"
proof -
  have p0: "card (- ld) < n \<longrightarrow>
      read_directories_bounded n h f off ld bt be dirs
        = Some (read_directories h f off ld bt be dirs)"
    using read_directories_within_bound [of ld n h f off bt be dirs] by blast
  have p1: "walk_reaches h bt be (f, off, ld) (f1, off1, ld1) ds \<and> 0 < sint off1 \<and> off1 \<in> ld1 \<longrightarrow>
      read_directories h f off ld bt be dirs = Inl (Error BAD_DATA ''Loop detected'' [])"
  proof
    assume a: "walk_reaches h bt be (f, off, ld) (f1, off1, ld1) ds \<and> 0 < sint off1 \<and> off1 \<in> ld1"
    then have "read_directory h f1 off1 ld1 bt be = Inl (Error BAD_DATA ''Loop detected'' [])"
      by (intro read_directory_loop) simp_all
    with a have "read_directories h f1 off1 ld1 bt be (dirs @ ds)
        = Inl (Error BAD_DATA ''Loop detected'' [])"
      by (intro read_directories_failure sint_pos_nonzero) simp_all
    with a show "read_directories h f off ld bt be dirs = Inl (Error BAD_DATA ''Loop detected'' [])"
      using reaches_continue [of h bt be f off ld f1 off1 ld1 ds dirs] by simp
  qed
  have p2: "walk_reaches h bt be (f, off, ld) (f1, off1, ld1) ds \<longrightarrow>
      ld \<subseteq> ld1 \<and> card ld1 = card ld + length ds \<and> (ds \<noteq> [] \<longrightarrow> off \<in> ld1)"
  proof
    assume "walk_reaches h bt be (f, off, ld) (f1, off1, ld1) ds"
    then show "ld \<subseteq> ld1 \<and> card ld1 = card ld + length ds \<and> (ds \<noteq> [] \<longrightarrow> off \<in> ld1)"
      by (rule reaches_visited)
  qed
  have p3: "read_directories h f off ld bt be dirs = Inr (dirs', ld', f') \<longrightarrow>
      (\<exists>ds. dirs' = dirs @ ds \<and> walk_reaches h bt be (f, off, ld) (f', 0, ld') ds
            \<and> card ld' = card ld + length ds)"
  proof
    assume "read_directories h f off ld bt be dirs = Inr (dirs', ld', f')"
    then obtain ds where ds: "dirs' = dirs @ ds"
      and re: "walk_reaches h bt be (f, off, ld) (f', 0, ld') ds"
      using reaches_of_success by blast
    from reaches_visited [OF re] have "card ld' = card ld + length ds" by simp
    with ds re show "\<exists>ds. dirs' = dirs @ ds \<and> walk_reaches h bt be (f, off, ld) (f', 0, ld') ds
              \<and> card ld' = card ld + length ds"
      by blast
  qed
  show ?thesis
    by (intro conjI p0 p1 p2 p3)
qed

theorem no_revisit_witness:
  "read_directories_bounded (2 ^ 64 + 1) big_endian_host (cycle_file\<lparr>pos := 8\<rparr>) 8 {}
       False True []
     = Some (Inl (Error BAD_DATA ''Loop detected'' []))
   \<and> read_directories big_endian_host (cycle_file\<lparr>pos := 8\<rparr>) 8 {} False True []
     = Inl (Error BAD_DATA ''Loop detected'' [])
   \<and> tifflike_create big_endian_host cycle_file = Inl (Error BAD_DATA ''Loop detected'' [])
   \<and> card {14, 8 :: 64 word} = card ({} :: 64 word set) + length [Map.empty, Map.empty :: directory]
   \<and> (\<exists>ds. [[256 \<mapsto> \<lparr>item_type = 3, item_count = 1, item_value = [5, 0]\<rparr>]] = [] @ ds
          \<and> walk_reaches little_endian_host False False
               (one_short_file\<lparr>pos := 8\<rparr>, 8, {}) (one_short_file\<lparr>pos := 26\<rparr>, 0, {8}) ds
          \<and> card {8 :: 64 word} = card ({} :: 64 word set) + length ds)"
proof -
  note cyc = no_revisit [where h = big_endian_host and bt = False and be = True
      and f = "cycle_file\<lparr>pos := 8\<rparr>" and off = 8 and ld = "{}"
      and ?f1.0 = "cycle_file\<lparr>pos := 20\<rparr>" and ?off1.0 = 8 and ?ld1.0 = "{14, 8}"
      and ds = "[Map.empty, Map.empty]" and dirs = "[]"]
  have a: "read_directories big_endian_host (cycle_file\<lparr>pos := 8\<rparr>) 8 {} False True []
      = Inl (Error BAD_DATA ''Loop detected'' [])"
    using cyc cycle_reaches by simp
  then have b: "tifflike_create big_endian_host cycle_file
      = Inl (Error BAD_DATA ''Loop detected'' [])"
    by (simp add: tifflike_create_def cycle_header)
  have "card (- {} :: 64 word set) < 2 ^ 64 + 1"
    by (simp add: card_word)
  with a have z: "read_directories_bounded (2 ^ 64 + 1) big_endian_host
      (cycle_file\<lparr>pos := 8\<rparr>) 8 {} False True []
      = Some (Inl (Error BAD_DATA ''Loop detected'' []))"
    using no_revisit [where n = "2 ^ 64 + 1" and ld = "{}" and h = big_endian_host
        and f = "cycle_file\<lparr>pos := 8\<rparr>" and off = 8 and bt = False and be = True
        and dirs = "[]", THEN conjunct1]
    by simp
  have c: "card {14, 8 :: 64 word} = card ({} :: 64 word set)
      + length [Map.empty, Map.empty :: directory]"
    using cyc cycle_reaches by blast
  have d: "\<exists>ds. [[256 \<mapsto> \<lparr>item_type = 3, item_count = 1, item_value = [5, 0]\<rparr>]] = [] @ ds
          \<and> walk_reaches little_endian_host False False
               (one_short_file\<lparr>pos := 8\<rparr>, 8, {}) (one_short_file\<lparr>pos := 26\<rparr>, 0, {8}) ds
          \<and> card {8 :: 64 word} = card ({} :: 64 word set) + length ds"
    using no_revisit [where h = little_endian_host and bt = False and be = False
        and f = "one_short_file\<lparr>pos := 8\<rparr>" and off = 8 and ld = "{}" and dirs = "[]"
        and dirs' = "[[256 \<mapsto> \<lparr>item_type = 3, item_count = 1, item_value = [5, 0]\<rparr>]]"
        and ld' = "{8}" and f' = "one_short_file\<lparr>pos := 26\<rparr>"]
      one_short_directories
    by blast
  from z a b c d show ?thesis by (intro conjI)
qed

subsection \<open>All or nothing\<close>

text \<open>
  What \<open>_openslide_tifflike_create\<close> returns: an error and no model as soon as anything
  fails, be it the header, any directory of the chain, however many directories were read
  before it (a bad offset, a loop, a failed seek, an entry that cannot be read or has an
  unknown type are the ways in which \<open>read_directory\<close> fails), or the chain being empty.
  The error is the one of the step that failed. A model is returned only when the walk
  came to a next offset of 0, and then its directories are those of the whole chain, of
  which there is at least one. What happens to the memory is the subject of the last
  subsection.
\<close>

theorem create_all_or_nothing:
  "(tifflike_header h f0 = Inl e \<longrightarrow> tifflike_create h f0 = Inl e)
   \<and> (tifflike_header h f0 = Inr (be, bt, off, f)
        \<and> walk_reaches h bt be (f, off, {}) (f1, off1, ld1) ds
        \<and> off1 \<noteq> 0 \<and> read_directory h f1 off1 ld1 bt be = Inl e \<longrightarrow>
      tifflike_create h f0 = Inl e)
   \<and> (tifflike_header h f0 = Inr (be, bt, 0, f) \<longrightarrow>
      tifflike_create h f0 = Inl (Error BAD_DATA ''TIFF contains no directories'' []))
   \<and> (tifflike_create h f0 = Inr tif \<longrightarrow>
      directories tif \<noteq> []
      \<and> (\<exists>be bt off f f' ld'.
            tifflike_header h f0 = Inr (be, bt, off, f)
            \<and> walk_reaches h bt be (f, off, {}) (f', 0, ld') (directories tif)))"
proof -
  have p1: "tifflike_header h f0 = Inl e \<longrightarrow>
      tifflike_create h f0 = Inl e"
  proof
    assume "tifflike_header h f0 = Inl e"
    then show "tifflike_create h f0 = Inl e"
      by (simp add: tifflike_create_def)
  qed
  have p2: "tifflike_header h f0 = Inr (be, bt, off, f)
        \<and> walk_reaches h bt be (f, off, {}) (f1, off1, ld1) ds
        \<and> off1 \<noteq> 0 \<and> read_directory h f1 off1 ld1 bt be = Inl e \<longrightarrow>
      tifflike_create h f0 = Inl e"
  proof
    assume a: "tifflike_header h f0 = Inr (be, bt, off, f)
          \<and> walk_reaches h bt be (f, off, {}) (f1, off1, ld1) ds
          \<and> off1 \<noteq> 0 \<and> read_directory h f1 off1 ld1 bt be = Inl e"
    then have "read_directories h f1 off1 ld1 bt be ([] @ ds) = Inl e"
      by (intro read_directories_failure) simp_all
    with a have "read_directories h f off {} bt be [] = Inl e"
      by (simp add: reaches_continue [of h bt be f off "{}" f1 off1 ld1 ds "[]"])
    with a show "tifflike_create h f0 = Inl e"
      by (simp add: tifflike_create_def)
  qed
  have p3: "tifflike_header h f0 = Inr (be, bt, 0, f) \<longrightarrow>
      tifflike_create h f0 = Inl (Error BAD_DATA ''TIFF contains no directories'' [])"
  proof
    assume "tifflike_header h f0 = Inr (be, bt, 0, f)"
    then show "tifflike_create h f0 = Inl (Error BAD_DATA ''TIFF contains no directories'' [])"
      by (simp add: tifflike_create_def read_directories.simps [of h f 0])
  qed
  have p4: "tifflike_create h f0 = Inr tif \<longrightarrow>
      directories tif \<noteq> []
      \<and> (\<exists>be bt off f f' ld'.
            tifflike_header h f0 = Inr (be, bt, off, f)
            \<and> walk_reaches h bt be (f, off, {}) (f', 0, ld') (directories tif))"
  proof
    assume a: "tifflike_create h f0 = Inr tif"
    then obtain be bt off f where hd: "tifflike_header h f0 = Inr (be, bt, off, f)"
      by (cases "tifflike_header h f0") (auto simp: tifflike_create_def)
    with a obtain dirs ld' f' where rd: "read_directories h f off {} bt be [] = Inr (dirs, ld', f')"
      by (cases "read_directories h f off {} bt be []") (auto simp: tifflike_create_def)
    with a hd have tif: "dirs \<noteq> []" "tif = \<lparr>directories = dirs\<rparr>"
      by (auto simp: tifflike_create_def split: if_splits)
    from reaches_of_success [OF rd]
    have "walk_reaches h bt be (f, off, {}) (f', 0, ld') dirs" by simp
    with hd tif show "directories tif \<noteq> []
        \<and> (\<exists>be bt off f f' ld'.
              tifflike_header h f0 = Inr (be, bt, off, f)
              \<and> walk_reaches h bt be (f, off, {}) (f', 0, ld') (directories tif))"
      by auto
  qed
  show ?thesis
    by (intro conjI p1 p2 p3 p4)
qed

theorem create_all_or_nothing_witness:
  "tifflike_create little_endian_host bad_magic_file
     = Inl (Error FORMAT_NOT_SUPPORTED ''Unrecognized TIFF magic number'' [])
   \<and> tifflike_create little_endian_host bad_second_directory_file
     = Inl (Error BAD_DATA ''Unknown type encountered: %d'' [99])
   \<and> tifflike_create little_endian_host no_directory_file
     = Inl (Error BAD_DATA ''TIFF contains no directories'' [])
   \<and> (\<exists>be bt off f f' ld'.
         tifflike_header little_endian_host one_short_file = Inr (be, bt, off, f)
         \<and> walk_reaches little_endian_host bt be (f, off, {}) (f', 0, ld')
              [[256 \<mapsto> \<lparr>item_type = 3, item_count = 1, item_value = [5, 0]\<rparr>]])"
proof -
  note inst = create_all_or_nothing [where h = little_endian_host and bt = False and be = False]
  have a: "tifflike_create little_endian_host bad_magic_file
      = Inl (Error FORMAT_NOT_SUPPORTED ''Unrecognized TIFF magic number'' [])"
    using inst [where ?f0.0 = bad_magic_file
        and e = "Error FORMAT_NOT_SUPPORTED ''Unrecognized TIFF magic number'' []"]
      bad_magic_header
    by simp
  have b: "tifflike_create little_endian_host bad_second_directory_file
      = Inl (Error BAD_DATA ''Unknown type encountered: %d'' [99])"
    using inst [where ?f0.0 = bad_second_directory_file
        and e = "Error BAD_DATA ''Unknown type encountered: %d'' [99]"
        and off = 8 and f = "bad_second_directory_file\<lparr>pos := 8\<rparr>"
        and ?f1.0 = "bad_second_directory_file\<lparr>pos := 26\<rparr>" and ?off1.0 = 26
        and ?ld1.0 = "{8}"
        and ds = "[[256 \<mapsto> \<lparr>item_type = 3, item_count = 1, item_value = [5, 0]\<rparr>]]"]
      bad_second_header bad_second_reaches bad_second_second
    by simp
  have c: "tifflike_create little_endian_host no_directory_file
      = Inl (Error BAD_DATA ''TIFF contains no directories'' [])"
    using inst [where ?f0.0 = no_directory_file and f = "no_directory_file\<lparr>pos := 8\<rparr>"]
      no_directory_header
    by simp
  have d: "\<exists>be bt off f f' ld'.
         tifflike_header little_endian_host one_short_file = Inr (be, bt, off, f)
         \<and> walk_reaches little_endian_host bt be (f, off, {}) (f', 0, ld')
              [[256 \<mapsto> \<lparr>item_type = 3, item_count = 1, item_value = [5, 0]\<rparr>]]"
    using inst [where ?f0.0 = one_short_file
        and tif = "\<lparr>directories =
              [[256 \<mapsto> \<lparr>item_type = 3, item_count = 1, item_value = [5, 0]\<rparr>]]\<rparr>"]
      one_short_create
    by simp
  from a b c d show ?thesis by (intro conjI)
qed

subsection \<open>Duplicate tags\<close>





lemma read_directory_entries_numeral:
  "read_directory_entries h bt be (numeral k) f d =
     (case read_directory_entry h f bt be of
        Inl e \<Rightarrow> Inl e
      | Inr (tag, item, f') \<Rightarrow>
          read_directory_entries h bt be (pred_numeral k) f' (d(tag \<mapsto> item)))"
  by (simp only: numeral_eq_Suc read_directory_entries.simps)

lemma read_entry_list_numeral:
  "read_entry_list h bt be (numeral k) f =
     (case read_directory_entry h f bt be of
        Inl e \<Rightarrow> Inl e
      | Inr (tag, item, f') \<Rightarrow>
          (case read_entry_list h bt be (pred_numeral k) f' of
             Inl e \<Rightarrow> Inl e
           | Inr (es, f'') \<Rightarrow> Inr ((tag, item) # es, f'')))"
  by (simp only: numeral_eq_Suc read_entry_list.simps)


lemma duplicate_tag_entries:
  "read_entry_list little_endian_host False False 2 (duplicate_tag_file\<lparr>pos := 10\<rparr>)
     = Inr ([(256, \<lparr>item_type = 3, item_count = 1, item_value = [5, 0]\<rparr>),
             (256, \<lparr>item_type = 3, item_count = 1, item_value = [7, 0]\<rparr>)],
            duplicate_tag_file\<lparr>pos := 34\<rparr>)"
  by (simp add: eval_defs duplicate_tag_file_def read_directory_entries_numeral
      read_entry_list_numeral)

lemma duplicate_tag_header:
  "tifflike_header little_endian_host duplicate_tag_file
     = Inr (False, False, 8, duplicate_tag_file\<lparr>pos := 8\<rparr>)"
  by (simp add: eval_defs duplicate_tag_file_def)

lemma duplicate_tag_directory:
  "read_directory little_endian_host (duplicate_tag_file\<lparr>pos := 8\<rparr>) 8 {} False False
     = Inr ([256 \<mapsto> \<lparr>item_type = 3, item_count = 1, item_value = [7, 0]\<rparr>], 0,
            duplicate_tag_file\<lparr>pos := 38\<rparr>, {8})"
  by (simp add: eval_defs duplicate_tag_file_def read_directory_entries_numeral
      read_entry_list_numeral)

lemma duplicate_tag_create:
  "tifflike_create little_endian_host duplicate_tag_file
     = Inr \<lparr>directories =
              [[256 \<mapsto> \<lparr>item_type = 3, item_count = 1, item_value = [7, 0]\<rparr>]]\<rparr>"
proof -
  have "walk_reaches little_endian_host False False
     (duplicate_tag_file\<lparr>pos := 8\<rparr>, 8, {}) (duplicate_tag_file\<lparr>pos := 38\<rparr>, 0, {8})
     [[256 \<mapsto> \<lparr>item_type = 3, item_count = 1, item_value = [7, 0]\<rparr>]]"
    using walk_reaches.step [OF walk_reaches.start _ duplicate_tag_directory] by simp
  from reaches_continue [OF this, of "[]"] show ?thesis
    by (simp add: tifflike_create_def duplicate_tag_header read_directories.simps [of _ _ 0])
qed

subsection \<open>The value of an entry\<close>

lemma length_GUINT_FROM [simp]:
  "length (GUINT_FROM_BE h bs) = length bs" "length (GUINT_FROM_LE h bs) = length bs"
  by (simp_all add: GUINT_FROM_BE_def GUINT_FROM_LE_def)

lemma length_fix_elems: "length (fix_elems h sz be n data) = length data"
  by (induction n arbitrary: data) simp_all

lemma length_fix_byte_order: "length (fix_byte_order h data sz count be) = length data"
  by (simp add: fix_byte_order_def length_fix_elems)

lemma read_tiff_value_result:
  assumes "read_tiff_value h f sz count offset val value_len be = Some (v, f')"
  shows "0 < sz \<and> 0 < count \<and> content f' = content f \<and> seek_limit f' = seek_limit f
    \<and> (pos f \<le> seek_limit f \<longrightarrow> f' = f)
    \<and> (sz * count \<le> value_len \<longrightarrow>
          f' = f \<and> v = fix_byte_order h (take (nat (sz * count)) val) sz count be)
    \<and> (value_len < sz * count \<longrightarrow>
          0 \<le> offset \<and> offset \<le> int (seek_limit f)
          \<and> nat offset + nat (sz * count) \<le> length (content f)
          \<and> v = fix_byte_order h (bytes_at (content f) (nat offset) (nat (sz * count))) sz count be)"
proof -
  from assms have pos: "0 < sz" "0 < count" and alloc: "try_malloc h (sz * count)"
    by (auto simp: read_tiff_value_def Let_def split: if_splits)
  show ?thesis
  proof (cases "sz * count \<le> value_len")
    case True
    with assms pos alloc show ?thesis
      by (auto simp: read_tiff_value_def Let_def split: if_splits)
  next
    case False
    with assms pos alloc have off: "0 \<le> offset" "offset \<le> int (seek_limit f)"
      by (auto simp: read_tiff_value_def Let_def fseeko_def split: if_splits)
    then have sk: "fseeko f offset = (True, f\<lparr>pos := nat offset\<rparr>)"
      by (simp add: fseeko_def)
    from assms pos alloc False sk
    have rd: "fread (f\<lparr>pos := nat offset\<rparr>) (nat (sz * count)) \<noteq>
        (None, snd (fread (f\<lparr>pos := nat offset\<rparr>) (nat (sz * count))))"
      by (auto simp: read_tiff_value_def Let_def split: if_splits prod.splits option.splits)
    then have enough: "nat offset + nat (sz * count) \<le> length (content f)"
      by (auto simp: fread_def split: if_splits)
    from pos have "0 < sz * count" by simp
    then have "nat (sz * count) \<noteq> 0" by simp
    with enough have fr: "fread (f\<lparr>pos := nat offset\<rparr>) (nat (sz * count))
        = (Some (bytes_at (content f) (nat offset) (nat (sz * count))),
           f\<lparr>pos := nat offset + nat (sz * count)\<rparr>)"
      by (simp add: fread_def bytes_at_def)
    from assms pos alloc False sk fr off enough show ?thesis
      by (auto simp: read_tiff_value_def Let_def fseeko_def ftello_def split: if_splits)
  qed
qed


lemma fread_Some:
  assumes "fread f n = (Some bs, f')"
  shows "pos f + n \<le> length (content f) \<and> bs = bytes_at (content f) (pos f) n
    \<and> f' = f\<lparr>pos := pos f + n\<rparr>"
  using assms by (auto simp: fread_def bytes_at_def split: if_splits)

lemma length_bytes_at: "p + n \<le> length c \<Longrightarrow> length (bytes_at c p n) = n"
  by (simp add: bytes_at_def)

lemma ucast_64_16_of_nat: "(ucast (of_nat n :: 64 word) :: 16 word) = of_nat n"
  by (rule bit_word_eqI) (auto simp: bit_simps)

lemma uint_16_field: "uint (of_nat (file_uint be (bytes_at c p 2)) :: 16 word)
    = int (file_uint be (bytes_at c p 2))"
  using file_uint_bytes_at_bound [of be c p 2]
  by (simp add: uint_nat unat_of_nat)

lemma nat_sint_64_field:
  assumes "0 \<le> sint (of_nat (file_uint be bs) :: 64 word)" and "length bs \<le> 8"
  shows "nat (sint (of_nat (file_uint be bs) :: 64 word)) = file_uint be bs"
proof -
  have "file_uint be bs < 256 ^ length bs" by (rule file_uint_bound)
  also have "\<dots> \<le> (256::nat) ^ 8" using assms(2) by (intro power_increasing) simp_all
  finally have small: "file_uint be bs < 2 ^ 64" by simp
  let ?w = "of_nat (file_uint be bs) :: 64 word"
  have "sint ?w < 2 ^ 64"
    using sint_lt [of ?w] by simp
  with assms(1) have "take_bit 64 (sint ?w) = sint ?w"
    by (intro take_bit_int_eq_self) simp_all
  then have "sint ?w = uint ?w"
    using uint_sint [of ?w] by simp
  then show ?thesis using small by (simp add: uint_nat unat_of_nat)
qed


lemma entry_value:
  assumes "read_directory_entry h f bt be = Inr (tag, item, f')"
  shows "\<exists>sz cnt.
      value_size_and_count (entry_type be (content f) (pos f))
          (entry_count bt be (content f) (pos f)) = Some (sz, cnt)
      \<and> tag = entry_tag be (content f) (pos f)
      \<and> item_type item = entry_type be (content f) (pos f)
      \<and> item_count item = sint (entry_count bt be (content f) (pos f))
      \<and> content f' = content f \<and> seek_limit f' = seek_limit f
      \<and> (length (content f) \<le> seek_limit f \<longrightarrow>
            f' = f\<lparr>pos := pos f + 4 + 2 * field_width bt\<rparr>)
      \<and> length (item_value item) = nat (sz * sint cnt)
      \<and> (sz * sint cnt \<le> int (field_width bt) \<longrightarrow>
            f' = f\<lparr>pos := pos f + 4 + 2 * field_width bt\<rparr>
            \<and> item_value item
              = fix_byte_order h (take (nat (sz * sint cnt)) (entry_field bt (content f) (pos f)))
                  sz (sint cnt) be)
      \<and> (int (field_width bt) < sz * sint cnt \<longrightarrow>
            item_value item
              = fix_byte_order h
                  (bytes_at (content f) (file_uint be (entry_field bt (content f) (pos f)))
                     (nat (sz * sint cnt)))
                  sz (sint cnt) be)
      \<and> 0 < sint cnt"
proof -
  let ?c = "content f" and ?p = "pos f"
  define w where "w = field_width bt"
  define wi :: int where "wi = (if bt then 8 else 4)"
  have wi: "wi \<in> {1, 2, 4, 8}" "nat wi = w" "int w = wi" "w \<le> 8"
    by (simp_all add: wi_def w_def field_width_def)
  obtain tag64 ok1 f1 where r1: "read_uint h f 2 be True = (tag64, ok1, f1)"
    by (cases "read_uint h f 2 be True") auto
  obtain type64 ok2 f2 where r2: "read_uint h f1 2 be ok1 = (type64, ok2, f2)"
    by (cases "read_uint h f1 2 be ok1") auto
  obtain count ok3 f3 where r3: "read_uint h f2 wi be ok2 = (count, ok3, f3)"
    by (cases "read_uint h f2 wi be ok2") auto
  note unfolded = assms [unfolded read_directory_entry_def Let_def r1 r2 r3 [unfolded wi_def]
      prod.case]
  from unfolded have ok3 by (auto split: if_splits)
  from read_uint_True [OF r3 [unfolded \<open>ok3\<close> [THEN eqTrueI]] wi(1)]
  have ok2 and len3: "pos f2 + w \<le> length (content f2)"
    and count: "count = of_nat (file_uint be (bytes_at (content f2) (pos f2) w))"
    and f3: "f3 = f2\<lparr>pos := pos f2 + w\<rparr>"
    by (simp_all add: wi)
  from read_uint_True [OF r2 [unfolded \<open>ok2\<close> [THEN eqTrueI]]]
  have ok1 and type64: "type64 = of_nat (file_uint be (bytes_at (content f1) (pos f1) 2))"
    and f2: "f2 = f1\<lparr>pos := pos f1 + 2\<rparr>"
    by simp_all
  from read_uint_True [OF r1 [unfolded \<open>ok1\<close> [THEN eqTrueI]]]
  have tag64: "tag64 = of_nat (file_uint be (bytes_at ?c ?p 2))"
    and f1: "f1 = f\<lparr>pos := ?p + 2\<rparr>"
    by simp_all
  have f3': "f3 = f\<lparr>pos := ?p + 4 + w\<rparr>" "content f3 = ?c"
    by (simp_all add: f3 f2 f1 add.assoc del: add_2_eq_Suc add_2_eq_Suc')
  have type: "(ucast type64 :: 16 word) = entry_type be ?c ?p"
    by (simp add: type64 f1 entry_type_def ucast_64_16_of_nat del: add_2_eq_Suc add_2_eq_Suc')
  have tag: "uint (ucast tag64 :: 16 word) = entry_tag be ?c ?p"
    by (simp add: tag64 entry_tag_def ucast_64_16_of_nat uint_16_field)
  have cnt: "count = entry_count bt be ?c ?p"
    by (simp add: count f2 f1 entry_count_def w_def add.assoc del: add_2_eq_Suc add_2_eq_Suc')
  obtain val f4 where fr: "fread f3 w = (Some val, f4)"
    using unfolded \<open>ok3\<close> wi
    by (cases "fread f3 w"; cases "fst (fread f3 w)") (auto simp: wi_def split: if_splits)
  from fread_Some [OF fr]
  have len4: "?p + 4 + w + w \<le> length ?c" and val: "val = entry_field bt ?c ?p"
    and f4: "f4 = f\<lparr>pos := ?p + 4 + 2 * w\<rparr>"
    by (simp_all add: f3' entry_field_def w_def add.assoc del: add_2_eq_Suc add_2_eq_Suc')
  have lval: "length val = w"
    using len4 by (simp add: val entry_field_def bytes_at_def w_def)
  define offset :: "64 word" where "offset = of_nat (file_uint be val)"
  have off_bt: "bt \<Longrightarrow> (of_nat (load_native h (fix_byte_order h val 8 1 be)) :: 64 word) = offset"
    using lval by (simp add: offset_def load_native_fix_byte_order w_def field_width_def)
  have "\<not> bt \<Longrightarrow> file_uint be val < 2 ^ 32"
    using file_uint_bound [of be val] lval by (simp add: w_def field_width_def)
  then have off_cl: "\<not> bt \<Longrightarrow>
      (ucast (of_nat (load_native h (fix_byte_order h val 4 1 be)) :: 32 word) :: 64 word) = offset"
    using lval
    by (simp add: offset_def load_native_fix_byte_order w_def field_width_def ucast_of_nat_small)
  obtain sz cnt' where vs: "value_size_and_count (ucast type64) count = Some (sz, cnt')"
    using unfolded \<open>ok3\<close> fr wi
    by (cases "value_size_and_count (ucast type64) count") (auto simp: wi_def split: if_splits)
  obtain v f5 where rv: "read_tiff_value h f4 sz (sint cnt') (sint offset) val (int w) be
      = Some (v, f5)"
    using unfolded \<open>ok3\<close> fr wi vs off_bt off_cl lval
    by (cases "read_tiff_value h f4 sz (sint cnt') (sint offset) val (int w) be")
       (auto simp: wi_def split: if_splits)
  have res: "tag = uint (ucast tag64 :: 16 word)"
    "item = \<lparr>item_type = ucast type64, item_count = sint count, item_value = v\<rparr>" "f' = f5"
    using unfolded \<open>ok3\<close> fr wi vs off_bt off_cl lval rv
    by (auto simp: wi_def split: if_splits)
  note tv = read_tiff_value_result [OF rv]
  have cont: "content f5 = ?c" "seek_limit f5 = seek_limit f" "0 < sint cnt'"
    using tv by (simp_all add: f4)
  have restored: "length ?c \<le> seek_limit f \<Longrightarrow> f5 = f4"
    using tv len4 by (simp add: f4)
  have inline: "sz * sint cnt' \<le> int w \<Longrightarrow>
      f5 = f4 \<and> v = fix_byte_order h (take (nat (sz * sint cnt')) val) sz (sint cnt') be"
    using tv by simp
  have outline: "int w < sz * sint cnt' \<Longrightarrow>
      v = fix_byte_order h (bytes_at ?c (file_uint be val) (nat (sz * sint cnt'))) sz (sint cnt') be
      \<and> file_uint be val + nat (sz * sint cnt') \<le> length ?c"
  proof -
    assume big: "int w < sz * sint cnt'"
    with tv have nn: "0 \<le> sint offset" by simp
    have "nat (sint offset) = file_uint be val"
      using nn lval wi(4) unfolding offset_def by (intro nat_sint_64_field) simp_all
    with tv big show ?thesis by (simp add: f4)
  qed
  have lenv: "length v = nat (sz * sint cnt')"
  proof (cases "sz * sint cnt' \<le> int w")
    case True
    with inline lval show ?thesis by (auto simp: length_fix_byte_order)
  next
    case False
    with outline show ?thesis by (auto simp: length_fix_byte_order bytes_at_def)
  qed
  show ?thesis
    using vs tag type cnt res cont restored inline outline lenv
    by (intro exI [of _ sz] exI [of _ cnt']) (simp add: f4 val w_def)
qed


lemma chunk_fix_elems:
  assumes "i < n" and "n * sz \<le> length data"
  shows "take sz (drop (i * sz) (fix_elems h sz be n data))
    = (if be then GUINT_FROM_BE h (take sz (drop (i * sz) data))
       else GUINT_FROM_LE h (take sz (drop (i * sz) data)))"
  using assms
proof (induction n arbitrary: i data)
  case 0
  then show ?case by simp
next
  case (Suc n)
  from Suc.prems have len: "sz \<le> length data" "n * sz \<le> length (drop sz data)"
    by simp_all
  show ?case
  proof (cases i)
    case 0
    with len show ?thesis by simp
  next
    case (Suc j)
    with Suc.prems have j: "j < n" by simp
    have "take sz (drop (i * sz) (fix_elems h sz be (Suc n) data))
        = take sz (drop (j * sz) (fix_elems h sz be n (drop sz data)))"
      using len by (simp add: Suc)
    also have "\<dots> = (if be then GUINT_FROM_BE h (take sz (drop (j * sz) (drop sz data)))
       else GUINT_FROM_LE h (take sz (drop (j * sz) (drop sz data))))"
      by (rule Suc.IH [OF j len(2)])
    also have "drop (j * sz) (drop sz data) = drop (i * sz) data"
      by (simp add: Suc add.commute)
    finally show ?thesis .
  qed
qed

lemma load_elem_fix_byte_order:
  assumes "sz \<in> {1, 2, 4, 8}" and "0 \<le> i" and "i < cnt" and "nat (sz * cnt) \<le> length data"
  shows "load_elem h (fix_byte_order h data sz cnt be) (nat sz) i
    = file_uint be (bytes_at data (nat i * nat sz) (nat sz))"
proof (cases "sz = 1")
  case True
  have "length (take (Suc 0) (drop (nat i) data)) \<le> 1" by simp
  then have "le_nat (rev (take (Suc 0) (drop (nat i) data))) = le_nat (take (Suc 0) (drop (nat i) data))"
    by (rule le_nat_rev_single)
  with True show ?thesis
    by (simp add: fix_byte_order_def load_elem_def load_native_def file_uint_def bytes_at_def)
next
  case False
  with assms(1) have fb: "fix_byte_order h data sz cnt be = fix_elems h (nat sz) be (nat cnt) data"
    by (auto simp: fix_byte_order_def)
  from assms have "nat i < nat cnt" by simp
  moreover from assms have "nat cnt * nat sz \<le> length data"
    by (simp add: nat_mult_distrib mult.commute)
  ultimately have "take (nat sz) (drop (nat i * nat sz) (fix_elems h (nat sz) be (nat cnt) data))
    = (if be then GUINT_FROM_BE h (take (nat sz) (drop (nat i * nat sz) data))
       else GUINT_FROM_LE h (take (nat sz) (drop (nat i * nat sz) data)))"
    by (rule chunk_fix_elems)
  then show ?thesis
    unfolding load_elem_def fb bytes_at_def by (simp only: load_native_from_order)
qed

lemma fix_elems_numeral:
  "fix_elems h sz be (numeral k) data =
     (if be then GUINT_FROM_BE h (take sz data) else GUINT_FROM_LE h (take sz data))
     @ fix_elems h sz be (pred_numeral k) (drop sz data)"
  by (simp only: numeral_eq_Suc fix_elems.simps)

lemma three_shorts_entry:
  "read_directory_entry little_endian_host (three_shorts_file\<lparr>pos := 10\<rparr>) False True
     = Inr (258, \<lparr>item_type = 3, item_count = 3, item_value = [8, 0, 8, 0, 8, 0]\<rparr>,
            three_shorts_file\<lparr>pos := 22\<rparr>)"
  by (simp add: eval_defs three_shorts_file_def fix_elems_numeral)

lemma one_short_entry:
  "read_directory_entry little_endian_host (one_short_file\<lparr>pos := 10\<rparr>) False False
     = Inr (256, \<lparr>item_type = 3, item_count = 1, item_value = [5, 0]\<rparr>,
            one_short_file\<lparr>pos := 22\<rparr>)"
  by (simp add: eval_defs one_short_file_def)

lemmas entry_fields = entry_type_def entry_count_def entry_field_def field_width_def
  bytes_at_def file_uint_def

lemma size_and_count_known:
  assumes "known_type t"
  shows "value_size_and_count t c
    = Some (int (type_width t), if t = TIFF_RATIONAL \<or> t = TIFF_SRATIONAL then c * 2 else c)"
  using assms
  by (auto simp: known_type_def value_size_and_count_def type_width_def tiff_types)

lemma size_and_count_unknown:
  "\<not> known_type t \<Longrightarrow> value_size_and_count t c = None"
  by (auto simp: known_type_def value_size_and_count_def)

lemma type_width_cases: "type_width t \<in> {1, 2, 4, 8}"
  by (simp add: type_width_def)

lemma sint_of_nat_small:
  assumes "m < 2 ^ 63"
  shows "sint (of_nat m :: 64 word) = int m"
proof -
  from assms have "m < 2 ^ 64" by simp
  then have u: "uint (of_nat m :: 64 word) = int m"
    by (simp add: uint_nat unat_of_nat take_bit_nat_eq_self)
  have "sint (of_nat m :: 64 word) = signed_take_bit 63 (uint (of_nat m :: 64 word))"
    by (simp add: sint_uint)
  also have "\<dots> = int m"
    using assms by (simp add: u signed_take_bit_int_eq_self_iff)
  finally show ?thesis .
qed

lemma swap_single: "length data = n \<Longrightarrow> swap_elements (Suc 0) n data = data"
proof (induction n arbitrary: data)
  case 0
  then show ?case by simp
next
  case (Suc n)
  then obtain b bs where "data = b # bs" by (cases data) auto
  with Suc show ?case by simp
qed

lemma fix_elems_swap:
  assumes "length data = w * n"
  shows "fix_elems h w be n data = (if be = host_big_endian h then data else swap_elements w n data)"
  using assms
proof (induction n arbitrary: data)
  case 0
  then show ?case by simp
next
  case (Suc n)
  then have "length (drop w data) = w * n" by simp
  from Suc.IH [OF this] Suc.prems show ?case
    by (auto simp: GUINT_FROM_BE_def GUINT_FROM_LE_def)
qed

lemma fix_byte_order_swap:
  assumes "length data = w * n" and "w \<in> {1, 2, 4, 8}"
  shows "fix_byte_order h data (int w) (int n) be
    = (if be = host_big_endian h then data else swap_elements w n data)"
proof (cases "w = 1")
  case True
  with assms show ?thesis by (simp add: fix_byte_order_def swap_single)
next
  case False
  with assms(2) have "fix_byte_order h data (int w) (int n) be = fix_elems h w be n data"
    by (auto simp: fix_byte_order_def)
  with fix_elems_swap [OF assms(1)] show ?thesis by simp
qed


lemma entry_length_unfold:
  "entry_length bt be c p
     = type_width (entry_type be c p) * raw_elements (entry_type be c p) (raw_count bt be c p)"
  by (simp add: entry_length_def entry_elements_def)

lemma count_within_ssize:
  assumes "0 < wd" and "int (wd * cnt) \<le> SSIZE_MAX"
  shows "\<not> int cnt > SSIZE_MAX div int wd"
proof -
  have "(int cnt * int wd) div int wd \<le> SSIZE_MAX div int wd"
    using assms by (intro zdiv_mono1) (simp_all add: mult.commute)
  then show ?thesis using assms(1) by simp
qed

lemma read_tiff_value_inline:
  assumes "0 < wd" and "0 < cnt" and "int (wd * cnt) \<le> SSIZE_MAX"
    and "try_malloc h (int (wd * cnt))" and "wd * cnt \<le> w"
  shows "read_tiff_value h f (int wd) (int cnt) offset val (int w) be
    = Some (fix_byte_order h (take (wd * cnt) val) (int wd) (int cnt) be, f)"
proof -
  from assms(5) have "int wd * int cnt \<le> int w"
    by (simp flip: of_nat_mult)
  with assms count_within_ssize [OF assms(1,3)] show ?thesis
    by (simp add: read_tiff_value_def Let_def nat_mult_distrib)
qed

lemma read_tiff_value_at_offset:
  assumes "0 < wd" and "0 < cnt" and "int (wd * cnt) \<le> SSIZE_MAX"
    and "try_malloc h (int (wd * cnt))" and "w < wd * cnt"
    and "off + wd * cnt \<le> length (content f)" and "length (content f) \<le> seek_limit f"
    and "pos f \<le> length (content f)"
  shows "read_tiff_value h f (int wd) (int cnt) (int off) val (int w) be
    = Some (fix_byte_order h (bytes_at (content f) off (wd * cnt)) (int wd) (int cnt) be, f)"
proof -
  from assms(5) have big: "\<not> int wd * int cnt \<le> int w"
    by (simp flip: of_nat_mult)
  have sk: "fseeko f (int off) = (True, f\<lparr>pos := off\<rparr>)"
    using assms(6,7) by (simp add: fseeko_def)
  have nz: "wd * cnt \<noteq> 0" using assms(1,2) by simp
  have fr: "fread (f\<lparr>pos := off\<rparr>) (wd * cnt)
      = (Some (bytes_at (content f) off (wd * cnt)), f\<lparr>pos := off + wd * cnt\<rparr>)"
    using assms(6) nz by (simp add: fread_def bytes_at_def)
  have rs: "snd (fseeko (f\<lparr>pos := off + wd * cnt\<rparr>) (ftello f)) = f"
    using assms(7,8) by (simp add: fseeko_def ftello_def)
  from assms(1-4) count_within_ssize [OF assms(1,3)] big sk fr rs show ?thesis
    by (simp add: read_tiff_value_def Let_def nat_mult_distrib)
qed


lemma length_entry_source:
  assumes "p + 4 + 2 * field_width bt \<le> length c"
    and "field_width bt < entry_length bt be c p \<longrightarrow>
      file_uint be (entry_field bt c p) + entry_length bt be c p \<le> length c"
  shows "length (entry_source bt be c p) = entry_length bt be c p"
proof (cases "entry_length bt be c p \<le> field_width bt")
  case True
  have "length (entry_field bt c p) = field_width bt"
    using assms(1) by (simp add: entry_field_def bytes_at_def)
  with True show ?thesis by (simp add: entry_source_def)
next
  case False
  with assms(2) show ?thesis by (simp add: entry_source_def bytes_at_def)
qed

text \<open>
  What \<open>read_directory_entry\<close> does with an entry that lies in the file and has a known
  type, a count above 0 and a value of at most \<open>SSIZE_MAX\<close> bytes that can be allocated
  and, when it does not fit the inline field, lies in the file at the offset the field
  denotes. The entry is read, with its tag, its type and its count; the stream is left
  right behind the entry; and the value is made of \<open>type_width * entry_elements\<close> bytes, the
  first bytes of the inline field or the bytes at the offset, with the bytes of every
  element reversed when the byte order of the file is not the one of the host. Element
  \<open>i\<close> of the value, read by the host, is then the number that the bytes of element \<open>i\<close>
  denote in the byte order of the file. The file is one whose size is within the offsets
  of its file system, which are numbers of 63 bits.
\<close>

theorem entry_value_decoded:
  assumes inside: "pos f + 4 + 2 * field_width bt \<le> length (content f)"
    and fits: "length (content f) \<le> seek_limit f" and lim: "seek_limit f < 2 ^ 63"
    and known: "known_type (entry_type be (content f) (pos f))"
    and some: "0 < raw_count bt be (content f) (pos f)"
    and small: "int (entry_length bt be (content f) (pos f)) \<le> SSIZE_MAX"
    and alloc: "try_malloc h (int (entry_length bt be (content f) (pos f)))"
    and there: "field_width bt < entry_length bt be (content f) (pos f) \<longrightarrow>
        file_uint be (entry_field bt (content f) (pos f))
          + entry_length bt be (content f) (pos f) \<le> length (content f)"
  shows "\<exists>v. read_directory_entry h f bt be
        = Inr (entry_tag be (content f) (pos f),
               \<lparr>item_type = entry_type be (content f) (pos f),
                item_count = int (raw_count bt be (content f) (pos f)),
                item_value = v\<rparr>,
               f\<lparr>pos := pos f + 4 + 2 * field_width bt\<rparr>)
      \<and> length v = entry_length bt be (content f) (pos f)
      \<and> v = (if be = host_big_endian h then entry_source bt be (content f) (pos f)
             else swap_elements (type_width (entry_type be (content f) (pos f)))
                    (entry_elements bt be (content f) (pos f))
                    (entry_source bt be (content f) (pos f)))
      \<and> (\<forall>i < entry_elements bt be (content f) (pos f).
            load_elem h v (type_width (entry_type be (content f) (pos f))) (int i)
              = file_uint be (bytes_at (entry_source bt be (content f) (pos f))
                  (i * type_width (entry_type be (content f) (pos f)))
                  (type_width (entry_type be (content f) (pos f)))))"
proof -
  let ?c = "content f" and ?p = "pos f"
  define w where "w = field_width bt"
  define wi :: int where "wi = (if bt then 8 else 4)"
  have wi: "wi \<in> {1, 2, 4, 8}" "nat wi = w" "int w = wi" "w \<le> 8"
    by (simp_all add: wi_def w_def field_width_def)
  define t where "t = entry_type be ?c ?p"
  define n where "n = raw_count bt be ?c ?p"
  define wd where "wd = type_width t"
  define cnt where "cnt = raw_elements t n"
  define src where "src = entry_source bt be ?c ?p"
  define val where "val = entry_field bt ?c ?p"
  define off where "off = file_uint be val"
  have len: "entry_length bt be ?c ?p = wd * cnt" "entry_elements bt be ?c ?p = cnt"
    by (simp_all add: entry_length_def entry_elements_def wd_def cnt_def t_def n_def)
  have wd: "wd \<in> {1, 2, 4, 8}" "0 < wd"
    using type_width_cases [of t] by (auto simp: wd_def)
  have cnt: "0 < cnt" "n \<le> cnt"
    using some by (simp_all add: cnt_def raw_elements_def n_def)
  have "int cnt * 1 \<le> int cnt * int wd"
    using wd(2) by (intro mult_left_mono) simp_all
  also have "\<dots> \<le> SSIZE_MAX"
    using small by (simp add: len mult.commute)
  finally have cnt63: "cnt < 2 ^ 63" "n < 2 ^ 63"
    using cnt(2) by (simp_all add: SSIZE_MAX_def)
  have lsrc: "length src = wd * cnt"
    using length_entry_source [OF inside there] by (simp add: src_def len)
  have lval: "length val = w"
    using inside by (simp add: val_def entry_field_def bytes_at_def w_def)
  have r1: "read_uint h f 2 be True
      = (of_nat (file_uint be (bytes_at ?c ?p 2)), True, f\<lparr>pos := ?p + 2\<rparr>)"
    using inside read_uint_enough [of 2 f h be True] by simp
  have r2: "read_uint h (f\<lparr>pos := ?p + 2\<rparr>) 2 be True
      = (of_nat (file_uint be (bytes_at ?c (?p + 2) 2)), True, f\<lparr>pos := ?p + 4\<rparr>)"
    using inside read_uint_enough [of 2 "f\<lparr>pos := ?p + 2\<rparr>" h be True]
    by (simp add: add.assoc del: add_2_eq_Suc add_2_eq_Suc')
  have r3: "read_uint h (f\<lparr>pos := ?p + 4\<rparr>) wi be True
      = (of_nat n, True, f\<lparr>pos := ?p + 4 + w\<rparr>)"
    using inside wi read_uint_enough [of wi "f\<lparr>pos := ?p + 4\<rparr>" h be True]
    by (simp add: n_def raw_count_def w_def)
  have fr: "fread (f\<lparr>pos := ?p + 4 + w\<rparr>) w = (Some val, f\<lparr>pos := ?p + 4 + 2 * w\<rparr>)"
    using inside wi(1,2)
    by (auto simp: fread_def val_def entry_field_def bytes_at_def w_def field_width_def)
  have ty: "(ucast (of_nat (file_uint be (bytes_at ?c (?p + 2) 2)) :: 64 word) :: 16 word) = t"
    by (simp add: t_def entry_type_def ucast_64_16_of_nat)
  have tg: "uint (ucast (of_nat (file_uint be (bytes_at ?c ?p 2)) :: 64 word) :: 16 word)
      = entry_tag be ?c ?p"
    by (simp add: entry_tag_def ucast_64_16_of_nat uint_16_field)
  have vs: "value_size_and_count t (of_nat n) = Some (int wd, of_nat cnt)"
    using known size_and_count_known [of t "of_nat n"]
    by (simp add: t_def wd_def cnt_def raw_elements_def mult.commute)
  have s1: "sint (of_nat n :: 64 word) = int n" "sint (of_nat cnt :: 64 word) = int cnt"
    using cnt63 by (simp_all add: sint_of_nat_small)
  have off_bt: "bt \<Longrightarrow> (of_nat (load_native h (fix_byte_order h val 8 1 be)) :: 64 word) = of_nat off"
    using lval by (simp add: off_def load_native_fix_byte_order w_def field_width_def)
  have "\<not> bt \<Longrightarrow> file_uint be val < 2 ^ 32"
    using file_uint_bound [of be val] lval by (simp add: w_def field_width_def)
  then have off_cl: "\<not> bt \<Longrightarrow>
      (ucast (of_nat (load_native h (fix_byte_order h val 4 1 be)) :: 32 word) :: 64 word)
        = of_nat off"
    using lval
    by (simp add: off_def load_native_fix_byte_order w_def field_width_def ucast_of_nat_small)
  let ?f4 = "f\<lparr>pos := ?p + 4 + 2 * w\<rparr>"
  have small': "int (wd * cnt) \<le> SSIZE_MAX" and alloc': "try_malloc h (int (wd * cnt))"
    using small alloc by (simp_all add: len)
  have rv: "read_tiff_value h ?f4 (int wd) (int cnt) (sint (of_nat off :: 64 word)) val (int w) be
      = Some (fix_byte_order h src (int wd) (int cnt) be, ?f4)"
  proof (cases "wd * cnt \<le> w")
    case True
    then have "src = take (wd * cnt) val"
      by (simp add: src_def entry_source_def len w_def val_def)
    with read_tiff_value_inline [OF wd(2) cnt(1) small' alloc' True] show ?thesis
      by simp
  next
    case False
    then have big: "w < wd * cnt" by simp
    with there have enough: "off + wd * cnt \<le> length ?c"
      by (simp add: len w_def off_def val_def)
    with fits lim have "off < 2 ^ 63" by simp
    then have so: "sint (of_nat off :: 64 word) = int off"
      by (rule sint_of_nat_small)
    from big have "src = bytes_at ?c off (wd * cnt)"
      by (simp add: src_def entry_source_def len w_def val_def off_def)
    with read_tiff_value_at_offset [of wd cnt h w off ?f4 val be] wd(2) cnt(1) small' alloc'
      big enough fits inside
    show ?thesis by (simp add: so w_def)
  qed
  define v where "v = fix_byte_order h src (int wd) (int cnt) be"
  have res: "read_directory_entry h f bt be
      = Inr (entry_tag be ?c ?p, \<lparr>item_type = t, item_count = int n, item_value = v\<rparr>, ?f4)"
    using r1 r2 r3 fr ty tg vs s1 off_bt off_cl rv wi lval
    by (auto simp: read_directory_entry_def Let_def wi_def v_def w_def field_width_def
        split: if_splits)
  have sw: "v = (if be = host_big_endian h then src else swap_elements wd cnt src)"
    unfolding v_def by (rule fix_byte_order_swap [OF lsrc wd(1)])
  have lv: "length v = wd * cnt"
    by (simp add: v_def length_fix_byte_order lsrc)
  have el: "\<forall>i < cnt. load_elem h v wd (int i) = file_uint be (bytes_at src (i * wd) wd)"
  proof (intro allI impI)
    fix i assume "i < cnt"
    with load_elem_fix_byte_order [of "int wd" "int i" "int cnt" src h be] wd lsrc
    show "load_elem h v wd (int i) = file_uint be (bytes_at src (i * wd) wd)"
      by (simp add: v_def nat_mult_distrib)
  qed
  have names: "entry_elements bt be ?c ?p = cnt" "entry_length bt be ?c ?p = wd * cnt"
    "type_width t = wd" "entry_source bt be ?c ?p = src" "entry_type be ?c ?p = t"
    "raw_count bt be ?c ?p = n" "field_width bt = w"
    by (simp_all add: len t_def n_def wd_def src_def w_def)
  show ?thesis
    unfolding names using res sw lv el by (intro exI [of _ v]) simp
qed


lemma swap_elements_numeral:
  "swap_elements w (numeral k) data
     = rev (take w data) @ swap_elements w (pred_numeral k) (drop w data)"
  by (simp only: numeral_eq_Suc swap_elements.simps)

lemmas entry_spec = entry_tag_def entry_type_def raw_count_def entry_elements_def
  entry_length_def entry_source_def entry_field_def field_width_def bytes_at_def file_uint_def
  known_type_def type_width_def raw_elements_def tiff_types SSIZE_MAX_def

theorem entry_value_decoded_witness:
  "read_directory_entry big_endian_host (big_rational_file\<lparr>pos := 24\<rparr>) True False
     = Inr (282, \<lparr>item_type = 5, item_count = 1, item_value = [0, 0, 0, 1, 0, 0, 0, 2]\<rparr>,
            big_rational_file\<lparr>pos := 44\<rparr>)
   \<and> read_directory_entry little_endian_host (far_rational_file\<lparr>pos := 10\<rparr>) False False
     = Inr (282, \<lparr>item_type = 5, item_count = 1, item_value = [1, 0, 0, 0, 2, 0, 0, 0]\<rparr>,
            far_rational_file\<lparr>pos := 22\<rparr>)
   \<and> read_directory_entry little_endian_host (three_shorts_file\<lparr>pos := 10\<rparr>) False True
     = Inr (258, \<lparr>item_type = 3, item_count = 3, item_value = [8, 0, 8, 0, 8, 0]\<rparr>,
            three_shorts_file\<lparr>pos := 22\<rparr>)"
proof -
  let ?f = "big_rational_file\<lparr>pos := 24\<rparr>"
  have a: "read_directory_entry big_endian_host ?f True False
     = Inr (282, \<lparr>item_type = 5, item_count = 1, item_value = [0, 0, 0, 1, 0, 0, 0, 2]\<rparr>,
            big_rational_file\<lparr>pos := 44\<rparr>)"
    using entry_value_decoded [where h = big_endian_host and f = ?f and bt = True and be = False]
    by (simp add: entry_spec big_rational_file_def big_endian_host_def swap_elements_numeral)
  let ?g = "far_rational_file\<lparr>pos := 10\<rparr>"
  have b: "read_directory_entry little_endian_host ?g False False
     = Inr (282, \<lparr>item_type = 5, item_count = 1, item_value = [1, 0, 0, 0, 2, 0, 0, 0]\<rparr>,
            far_rational_file\<lparr>pos := 22\<rparr>)"
    using entry_value_decoded [where h = little_endian_host and f = ?g and bt = False
        and be = False]
    by (simp add: entry_spec far_rational_file_def little_endian_host_def)
  let ?k = "three_shorts_file\<lparr>pos := 10\<rparr>"
  have c: "read_directory_entry little_endian_host ?k False True
     = Inr (258, \<lparr>item_type = 3, item_count = 3, item_value = [8, 0, 8, 0, 8, 0]\<rparr>,
            three_shorts_file\<lparr>pos := 22\<rparr>)"
    using entry_value_decoded [where h = little_endian_host and f = ?k and bt = False
        and be = True]
    by (simp add: entry_spec three_shorts_file_def little_endian_host_def swap_elements_numeral)
  from a b c show ?thesis by (intro conjI)
qed

lemma wrapping_count_header:
  "tifflike_header little_endian_host wrapping_count_file
     = Inr (False, True, 16, wrapping_count_file\<lparr>pos := 16\<rparr>)"
  by (simp add: eval_defs wrapping_count_file_def)

lemma wrapping_count_directory:
  "read_directory little_endian_host (wrapping_count_file\<lparr>pos := 16\<rparr>) 16 {} True False
     = Inr ([282 \<mapsto> \<lparr>item_type = TIFF_RATIONAL, item_count = - 9223372036854775807,
                     item_value = [1, 0, 0, 0, 2, 0, 0, 0]\<rparr>], 0,
            wrapping_count_file\<lparr>pos := 52\<rparr>, {16})"
  by (simp add: eval_defs wrapping_count_file_def fix_elems_numeral)


text \<open>
  C3. The claim fails on \<open>wrapping_count_file\<close>, a BigTIFF whose one entry is a Rational
  with the count \<open>2 ^ 63 + 1\<close>. Its value has \<open>4 * 2 * (2 ^ 63 + 1)\<close> bytes, which is more
  than the 8 bytes of the inline field and more than the 52 bytes of the file, so by the
  claim the inline field is an offset and the value cannot be read. \<open>read_directory\<close>
  doubles the count as an unsigned number of 64 bits: the product is 2, and
  \<open>read_tiff_value\<close>, whose test against \<open>SSIZE_MAX\<close> sees only this 2, copies the 8 bytes
  of the inline field. The file parses, and its item holds the count of the entry as an
  \<open>int64_t\<close>, a negative number.
\<close>

theorem rational_count_wraps:
  "entry_type False (content wrapping_count_file) 24 = TIFF_RATIONAL
   \<and> raw_count True False (content wrapping_count_file) 24 = 2 ^ 63 + 1
   \<and> entry_length True False (content wrapping_count_file) 24 = 2 ^ 66 + 8
   \<and> field_width True = 8
   \<and> length (content wrapping_count_file) = 52
   \<and> value_size_and_count TIFF_RATIONAL (2 ^ 63 + 1) = Some (4, 2)
   \<and> read_directory_entry little_endian_host (wrapping_count_file\<lparr>pos := 24\<rparr>) True False
     = Inr (282, \<lparr>item_type = TIFF_RATIONAL, item_count = - (2 ^ 63 - 1),
                  item_value = entry_field True (content wrapping_count_file) 24\<rparr>,
            wrapping_count_file\<lparr>pos := 44\<rparr>)
   \<and> tifflike_create little_endian_host wrapping_count_file
     = Inr \<lparr>directories =
              [[282 \<mapsto> \<lparr>item_type = TIFF_RATIONAL, item_count = - (2 ^ 63 - 1),
                         item_value = [1, 0, 0, 0, 2, 0, 0, 0]\<rparr>]]\<rparr>"
proof -
  have a: "entry_type False (content wrapping_count_file) 24 = TIFF_RATIONAL"
    "raw_count True False (content wrapping_count_file) 24 = 2 ^ 63 + 1"
    "entry_length True False (content wrapping_count_file) 24 = 2 ^ 66 + 8"
    "field_width True = 8"
    "length (content wrapping_count_file) = 52"
    by (simp_all add: entry_spec wrapping_count_file_def)
  have b: "value_size_and_count TIFF_RATIONAL (2 ^ 63 + 1) = Some (4, 2)"
    by (simp add: value_size_and_count_def tiff_types)
  have c: "read_directory_entry little_endian_host (wrapping_count_file\<lparr>pos := 24\<rparr>) True False
     = Inr (282, \<lparr>item_type = TIFF_RATIONAL, item_count = - (2 ^ 63 - 1),
                  item_value = entry_field True (content wrapping_count_file) 24\<rparr>,
            wrapping_count_file\<lparr>pos := 44\<rparr>)"
    by (simp add: eval_defs wrapping_count_file_def fix_elems_numeral entry_field_def
        field_width_def bytes_at_def)
  have "walk_reaches little_endian_host True False
     (wrapping_count_file\<lparr>pos := 16\<rparr>, 16, {}) (wrapping_count_file\<lparr>pos := 52\<rparr>, 0, {16})
     [[282 \<mapsto> \<lparr>item_type = TIFF_RATIONAL, item_count = - 9223372036854775807,
                 item_value = [1, 0, 0, 0, 2, 0, 0, 0]\<rparr>]]"
    using walk_reaches.step [OF walk_reaches.start _ wrapping_count_directory] by simp
  from reaches_continue [OF this, of "[]"]
  have d: "tifflike_create little_endian_host wrapping_count_file
     = Inr \<lparr>directories =
              [[282 \<mapsto> \<lparr>item_type = TIFF_RATIONAL, item_count = - (2 ^ 63 - 1),
                         item_value = [1, 0, 0, 0, 2, 0, 0, 0]\<rparr>]]\<rparr>"
    by (simp add: tifflike_create_def wrapping_count_header read_directories.simps [of _ _ 0])
  from a b c d show ?thesis by (intro conjI)
qed

subsection \<open>Duplicate tags in a model\<close>



















subsection \<open>The size check of the quickhash\<close>

lemma get_uint_value_any_flag:
  "fst (get_uint h tif dir tag i ok) = fst (get_uint h tif dir tag i None)"
  by (simp add: get_uint_def get_and_check_item_def split: option.splits)

lemma byte_count_fst:
  "uint (fst (get_uint h tif dir tag i ok)) = byte_count h tif dir tag i"
  by (simp add: byte_count_def get_uint_value_any_flag [of h tif dir tag i ok])

lemma byte_count_nonneg: "0 \<le> byte_count h tif dir tag i"
  by (simp add: byte_count_def)

lemma sum_from: "i < count \<Longrightarrow>
  (\<Sum>j \<in> {i..<count}. g j) = g i + (\<Sum>j \<in> {i + 1..<count}. g (j :: int) :: int)"
proof -
  assume "i < count"
  then have "{i..<count} = insert i {i + 1..<count}" by auto
  then show ?thesis by simp
qed

lemma check_total_size_without_wrap:
  assumes "uint sum0 + (\<Sum>j \<in> {i..<count}. byte_count h tif dir tag j) < 2 ^ 63"
    and "uint sum0 \<le> 5 * 2 ^ 20"
  shows "fst (check_total_size h tif dir tag count i sum0 ok)
    \<longleftrightarrow> 5 * 2 ^ 20 < uint sum0 + (\<Sum>j \<in> {i..<count}. byte_count h tif dir tag j)"
  using assms
proof (induction h tif dir tag count i sum0 ok rule: check_total_size.induct)
  case (1 h tif dir length_tag count i sum0 ok)
  note simps = check_total_size.simps [of h tif dir length_tag count i sum0 ok]
  show ?case
  proof (cases "i < count")
    case False
    with "1.prems" show ?thesis by (simp add: simps)
  next
    case True
    obtain len ok' where g: "get_uint h tif dir length_tag i ok = (len, ok')"
      by (cases "get_uint h tif dir length_tag i ok") auto
    then have len: "uint len = byte_count h tif dir length_tag i"
      using byte_count_fst [of h tif dir length_tag i ok] by simp
    let ?rest = "\<Sum>j \<in> {i + 1..<count}. byte_count h tif dir length_tag j"
    have rest: "0 \<le> ?rest"
      by (intro sum_nonneg byte_count_nonneg)
    have split: "(\<Sum>j \<in> {i..<count}. byte_count h tif dir length_tag j) = uint len + ?rest"
      using True by (simp add: sum_from len)
    with "1.prems" rest have small: "uint sum0 + uint len < 2 ^ 63"
      by simp
    then have u: "uint (sum0 + len) = uint sum0 + uint len"
      by (simp add: uint_plus_if_size word_size)
    have "- (2 ^ 63) \<le> uint sum0 + uint len"
      by (rule order_trans [of _ 0]) simp_all
    with small u have s: "sint (sum0 + len) = uint sum0 + uint len"
      by (simp add: sint_uint signed_take_bit_int_eq_self_iff)
    show ?thesis
    proof (cases "5 * 2 ^ 20 < sint (sum0 + len)")
      case over: True
      with s rest have "5 * 2 ^ 20 < uint sum0 + (uint len + ?rest)" by simp
      with over True g show ?thesis
        by (simp add: simps split)
    next
      case under: False
      with s u have le: "uint (sum0 + len) \<le> 5 * 2 ^ 20" by simp
      from "1.prems" split u
      have "uint (sum0 + len) + ?rest < 2 ^ 63" by simp
      from "1.IH" [OF True refl g [symmetric] refl under this le]
      have "fst (check_total_size h tif dir length_tag count (i + 1) (sum0 + len) ok')
        \<longleftrightarrow> 5 * 2 ^ 20 < uint (sum0 + len) + ?rest" .
      with True g under show ?thesis
        by (simp add: simps split u add.assoc)
    qed
  qed
qed


text \<open>
  As long as the byte counts of a level add up to less than \<open>2 ^ 63\<close>, the size check does
  what it is there for: a level of more than 5 MiB disables the accumulator, nothing is
  read and nothing fails.
\<close>

theorem hash_ceiling_without_wrap:
  assumes "get_value_count tif dir (level_offset_tag tif dir) = count"
    and "get_value_count tif dir (level_length_tag tif dir) = count"
    and "count \<noteq> 0"
    and "(\<Sum>j \<in> {0..<count}. byte_count h tif dir (level_length_tag tif dir) j) < 2 ^ 63"
    and "5 * 2 ^ 20 < (\<Sum>j \<in> {0..<count}. byte_count h tif dir (level_length_tag tif dir) j)"
  shows "hash_tiff_level readable h hs tif dir = Inr (hash_disable hs)"
proof -
  let ?lt = "level_length_tag tif dir" and ?ot = "level_offset_tag tif dir"
  have sel: "(if get_value_count tif dir TIFFTAG_TILEOFFSETS \<noteq> 0
            then Some (TIFFTAG_TILEOFFSETS, TIFFTAG_TILEBYTECOUNTS)
            else if get_value_count tif dir TIFFTAG_STRIPOFFSETS \<noteq> 0
            then Some (TIFFTAG_STRIPOFFSETS, TIFFTAG_STRIPBYTECOUNTS)
            else None) = Some (?ot, ?lt)"
    using assms(1,3) by (auto simp: level_offset_tag_def level_length_tag_def)
  have "fst (check_total_size h tif dir ?lt count 0 0 (Some True))"
    using assms(4,5) check_total_size_without_wrap [where ?sum0.0 = 0 and i = 0
        and count = count and h = h and tif = tif and dir = dir and tag = ?lt
        and ok = "Some True"]
    by simp
  then obtain ok where "check_total_size h tif dir ?lt count 0 0 (Some True) = (True, ok)"
    by (cases "check_total_size h tif dir ?lt count 0 0 (Some True)") auto
  then show ?thesis
    using assms(1,2,3) by (simp add: hash_tiff_level_def sel)
qed

text \<open>
  The sum is kept in an \<open>int64_t\<close>, though, and the byte counts are unsigned numbers of 64
  bits, so the sum can wrap around and the comparison can miss a level that is too large.
\<close>

lemmas accessor_defs = get_uint_def get_and_check_item_def get_item_def get_value_count_def
  load_elem_def load_native_def clear_ok_def tiff_types
  TIFFTAG_STRIPOFFSETS_def TIFFTAG_STRIPBYTECOUNTS_def TIFFTAG_TILEOFFSETS_def
  TIFFTAG_TILEBYTECOUNTS_def

lemma wrapping_strips_header:
  "tifflike_header little_endian_host wrapping_strips_file
     = Inr (False, False, 8, wrapping_strips_file\<lparr>pos := 8\<rparr>)"
  by (simp add: eval_defs wrapping_strips_file_def)

lemma wrapping_strips_directory:
  "read_directory little_endian_host (wrapping_strips_file\<lparr>pos := 8\<rparr>) 8 {} False False
     = Inr ([273 \<mapsto> \<lparr>item_type = TIFF_LONG, item_count = 2,
                     item_value = [62, 0, 0, 0, 62, 0, 0, 0]\<rparr>,
             279 \<mapsto> \<lparr>item_type = TIFF_LONG8, item_count = 2,
                     item_value = [0, 0, 0xa0, 0xff, 0xff, 0xff, 0xff, 0xff,
                                   0, 0, 0x60, 0, 0, 0, 0, 0]\<rparr>], 0,
            wrapping_strips_file\<lparr>pos := 38\<rparr>, {8})"
  by (simp add: eval_defs wrapping_strips_file_def read_directory_entries_numeral
      fix_elems_numeral)

lemma wrapping_strips_create:
  "tifflike_create little_endian_host wrapping_strips_file = Inr wrapping_strips"
proof -
  have "walk_reaches little_endian_host False False
     (wrapping_strips_file\<lparr>pos := 8\<rparr>, 8, {}) (wrapping_strips_file\<lparr>pos := 38\<rparr>, 0, {8})
     (directories wrapping_strips)"
    using walk_reaches.step [OF walk_reaches.start _ wrapping_strips_directory]
    by (simp add: wrapping_strips_def)
  from reaches_continue [OF this, of "[]"] show ?thesis
    by (simp add: tifflike_create_def wrapping_strips_header read_directories.simps [of _ _ 0]
        wrapping_strips_def)
qed

lemma wrapping_strips_lengths:
  "get_uint little_endian_host wrapping_strips 0 279 0 ok = (0xffffffffffa00000, ok)"
  "get_uint little_endian_host wrapping_strips 0 279 1 ok = (0x600000, ok)"
  by (simp_all add: accessor_defs wrapping_strips_def little_endian_host_def)

lemma wrapping_strips_offsets:
  "get_uint little_endian_host wrapping_strips 0 273 0 ok = (62, ok)"
  "get_uint little_endian_host wrapping_strips 0 273 1 ok = (62, ok)"
  by (simp_all add: accessor_defs wrapping_strips_def little_endian_host_def)

lemma wrapping_strips_counts:
  "get_value_count wrapping_strips 0 TIFFTAG_TILEOFFSETS = 0"
  "get_value_count wrapping_strips 0 TIFFTAG_STRIPOFFSETS = 2"
  "get_value_count wrapping_strips 0 TIFFTAG_STRIPBYTECOUNTS = 2"
  by (simp_all add: accessor_defs wrapping_strips_def)

lemma wrapping_strips_check:
  "check_total_size little_endian_host wrapping_strips 0 279 2 0 0 (Some True)
     = (False, Some True)"
  by (simp add: check_total_size.simps wrapping_strips_lengths)

lemma wrapping_strips_hash:
  "hash_tiff_level readable little_endian_host hs wrapping_strips 0
     = (case hash_file_part readable hs 62 (- 6291456) of
          Inl e \<Rightarrow> Inl e
        | Inr hs' \<Rightarrow> hash_file_part readable hs' 62 6291456)"
  by (simp add: hash_tiff_level_def wrapping_strips_counts wrapping_strips_check
      TIFFTAG_STRIPOFFSETS_def [symmetric] TIFFTAG_STRIPBYTECOUNTS_def [symmetric])
     (simp add: TIFFTAG_STRIPOFFSETS_def TIFFTAG_STRIPBYTECOUNTS_def hash_raw_data.simps
      wrapping_strips_lengths wrapping_strips_offsets wrapping_strips_check
      split: sum.splits)

lemma int_interval_2: "{0..<2 :: int} = {0, 1}"
  by auto

text \<open>
  C4. The model \<open>wrapping_strips\<close> is what \<open>_openslide_tifflike_create\<close> returns for
  \<open>wrapping_strips_file\<close>. Its two strip byte counts add up to \<open>2 ^ 64\<close>, far above 5 MiB.
  The running total is \<open>-6291456\<close> after the first and 0 after the second, so the
  accumulator is not disabled: both strips go to \<open>_openslide_hash_file_part\<close>, the second
  with a length of 6 MiB, and whether or not the parts can be read the result is never
  the disabled accumulator.
\<close>

theorem hash_ceiling_wraps:
  "tifflike_create little_endian_host wrapping_strips_file = Inr wrapping_strips
   \<and> (\<Sum>j \<in> {0..<2}.
         byte_count little_endian_host wrapping_strips 0 TIFFTAG_STRIPBYTECOUNTS j) = 2 ^ 64
   \<and> hash_tiff_level (\<lambda>offset len. True) little_endian_host
         \<lparr>enabled = True, parts = []\<rparr> wrapping_strips 0
       = Inr \<lparr>enabled = True, parts = [(62, - 6291456), (62, 6291456)]\<rparr>
   \<and> (\<forall>readable hs.
         hash_tiff_level readable little_endian_host hs wrapping_strips 0
           \<noteq> Inr (hash_disable hs))"
proof -
  have a: "(\<Sum>j \<in> {0..<2}.
         byte_count little_endian_host wrapping_strips 0 TIFFTAG_STRIPBYTECOUNTS j) = 2 ^ 64"
    by (simp add: int_interval_2 byte_count_def TIFFTAG_STRIPBYTECOUNTS_def
        wrapping_strips_lengths)
  have b: "hash_tiff_level (\<lambda>offset len. True) little_endian_host
         \<lparr>enabled = True, parts = []\<rparr> wrapping_strips 0
       = Inr \<lparr>enabled = True, parts = [(62, - 6291456), (62, 6291456)]\<rparr>"
    by (simp add: wrapping_strips_hash hash_file_part_def)
  have c: "\<forall>readable hs.
         hash_tiff_level readable little_endian_host hs wrapping_strips 0
           \<noteq> Inr (hash_disable hs)"
  proof (intro allI notI)
    fix readable hs
    assume "hash_tiff_level readable little_endian_host hs wrapping_strips 0
        = Inr (hash_disable hs)"
    then have "hs\<lparr>parts := parts hs @ [(62, - 6291456), (62, 6291456)]\<rparr> = hash_disable hs"
      by (auto simp: wrapping_strips_hash hash_file_part_def split: if_splits)
    then have "parts (hs\<lparr>parts := parts hs @ [(62, - 6291456), (62, 6291456)]\<rparr>)
        = parts (hash_disable hs)"
      by simp
    then show False by (simp add: hash_disable_def)
  qed
  from wrapping_strips_create a b c show ?thesis by (intro conjI)
qed

subsection \<open>Buffers and counts\<close>

lemma entry_item_ok:
  assumes "read_directory_entry h f bt be = Inr (tag, item, f')"
  shows "item_ok item"
proof -
  from entry_value [OF assms] obtain sz cnt where
    "value_size_and_count (entry_type be (content f) (pos f))
        (entry_count bt be (content f) (pos f)) = Some (sz, cnt)"
    "item_type item = entry_type be (content f) (pos f)"
    "item_count item = sint (entry_count bt be (content f) (pos f))"
    "length (item_value item) = nat (sz * sint cnt)"
    "0 < sint cnt"
    by blast
  then show ?thesis
    unfolding item_ok_def by (intro exI [of _ "entry_count bt be (content f) (pos f)"]) auto
qed

lemma entries_ok:
  assumes "read_directory_entries h bt be n f d = Inr (d', f')"
    and "\<forall>item \<in> ran d. item_ok item"
  shows "\<forall>item \<in> ran d'. item_ok item"
  using assms
proof (induction n arbitrary: f d)
  case 0
  then show ?case by simp
next
  case (Suc n)
  from Suc.prems(1) obtain tag item f1
    where e: "read_directory_entry h f bt be = Inr (tag, item, f1)"
      and rest: "read_directory_entries h bt be n f1 (d(tag \<mapsto> item)) = Inr (d', f')"
    by (auto split: sum.splits)
  have "ran (d(tag \<mapsto> item)) \<subseteq> insert item (ran d)"
    by (auto simp: ran_def)
  with Suc.prems(2) entry_item_ok [OF e]
  have "\<forall>x \<in> ran (d(tag \<mapsto> item)). item_ok x" by auto
  from Suc.IH [OF rest this] show ?case .
qed

lemma directory_ok:
  assumes "read_directory h f off ld bt be = Inr (d, off', f', ld')"
  shows "\<forall>item \<in> ran d. item_ok item"
proof -
  from assms obtain n f2 f3 where "read_directory_entries h bt be n f2 Map.empty = Inr (d, f3)"
    by (auto simp: read_directory_def Let_def
        split: if_splits prod.splits sum.splits bool.splits)
  from entries_ok [OF this] show ?thesis by simp
qed

lemma reaches_ok:
  assumes "walk_reaches h bt be s t ds"
  shows "\<forall>d \<in> set ds. \<forall>item \<in> ran d. item_ok item"
  using assms
proof (induction rule: walk_reaches.induct)
  case (start s)
  show ?case by simp
next
  case (step s f1 off1 ld1 ds d off2 f2 ld2)
  from directory_ok [OF step.hyps(3)] step.IH show ?case by simp
qed

lemma created_model_ok:
  assumes "tifflike_create h f = Inr tif"
  shows "model_ok tif"
proof -
  from assms obtain be bt off f1 where "tifflike_header h f = Inr (be, bt, off, f1)"
    by (cases "tifflike_header h f") (auto simp: tifflike_create_def)
  with assms obtain dirs ld' f' where rd: "read_directories h f1 off {} bt be [] = Inr (dirs, ld', f')"
    and tif: "tif = \<lparr>directories = dirs\<rparr>"
    by (cases "read_directories h f1 off {} bt be []")
       (auto simp: tifflike_create_def split: if_splits)
  from reaches_of_success [OF rd] have "walk_reaches h bt be (f1, off, {}) (f', 0, ld') dirs"
    by simp
  from reaches_ok [OF this] tif show ?thesis by (simp add: model_ok_def)
qed

lemma double_positive:
  fixes c :: "64 word"
  assumes "0 < sint c" and "0 < sint (c * 2)"
  shows "sint (c * 2) = 2 * sint c"
proof -
  have c63: "sint c < 2 ^ 63" using sint_lt [of c] by simp
  have "- (2 ^ 63) \<le> 2 * sint c" using assms(1) by simp
  show ?thesis
  proof (cases "2 * sint c < 2 ^ 63")
    case True
    have "sint (c * 2) = signed_take_bit 63 (sint c * 2)"
      by (simp add: sint_word_ariths word_size del: )
    also have "\<dots> = 2 * sint c"
      using True \<open>- (2 ^ 63) \<le> 2 * sint c\<close>
      by (simp add: signed_take_bit_int_eq_self_iff mult.commute)
    finally show ?thesis .
  next
    case False
    then have big: "2 ^ 63 \<le> 2 * sint c" by simp
    have "sint (c * 2) = signed_take_bit 63 (sint c * 2)"
      by (simp add: sint_word_ariths word_size)
    also have "\<dots> = signed_take_bit 63 (sint c * 2 - 2 ^ 64)"
    proof -
      have "(sint c * 2 - 2 ^ 64) mod 2 ^ 64 = (sint c * 2) mod (2 ^ 64 :: int)"
        by (rule minus_mod_self2)
      then show ?thesis
        by (simp add: signed_take_bit_eq_iff_take_bit_eq take_bit_eq_mod)
    qed
    also have "\<dots> = sint c * 2 - 2 ^ 64"
      using big c63 by (simp add: signed_take_bit_int_eq_self_iff)
    also have "\<dots> < 0" using c63 by simp
    finally show ?thesis using assms(2) by simp
  qed
qed


lemma size_and_count_cases:
  "value_size_and_count t c =
     (if is_rational_type t then Some (4, c * 2)
      else case value_size_and_count t 1 of None \<Rightarrow> None | Some (sz, one) \<Rightarrow> Some (sz, c))"
  by (simp add: value_size_and_count_def is_rational_type_def tiff_types)

lemma size_positive:
  "case value_size_and_count t c of None \<Rightarrow> True | Some (sz, cnt) \<Rightarrow> 0 < sz"
  by (simp add: value_size_and_count_def)

lemma size_and_count_plain:
  assumes "value_size_and_count t c = Some (sz, cnt)" and "\<not> is_rational_type t"
  shows "cnt = c \<and> elem_size t = nat sz \<and> 0 < sz"
proof -
  from assms size_and_count_cases [of t c]
  have "(case value_size_and_count t 1 of None \<Rightarrow> None | Some (sz, one) \<Rightarrow> Some (sz, c))
      = Some (sz, cnt)"
    by simp
  then obtain one where "value_size_and_count t 1 = Some (sz, one)" and "cnt = c"
    by (cases "value_size_and_count t 1") auto
  moreover from size_positive [of t c] assms(1) have "0 < sz" by simp
  ultimately show ?thesis by (simp add: elem_size_def)
qed

lemma size_and_count_rational:
  assumes "value_size_and_count t c = Some (sz, cnt)" and "is_rational_type t"
  shows "cnt = c * 2 \<and> sz = 4"
  using assms size_and_count_cases [of t c] by simp

lemma item_reads_in_bounds:
  assumes "item_ok item" and "0 \<le> i" and "i < item_count item"
  shows "(is_rational_type (item_type item) \<longrightarrow>
            (2 * nat i + 2) * 4 \<le> length (item_value item))
    \<and> (\<not> is_rational_type (item_type item) \<longrightarrow>
            (nat i + 1) * elem_size (item_type item) \<le> length (item_value item))"
proof -
  from assms(1) obtain c sz cnt where c: "item_count item = sint c"
    and vs: "value_size_and_count (item_type item) c = Some (sz, cnt)"
    and pos: "0 < sint cnt"
    and len: "length (item_value item) = nat (sz * sint cnt)"
    unfolding item_ok_def by blast
  from assms(2,3) c have i: "i + 1 \<le> sint c" "0 < sint c" by simp_all
  show ?thesis
  proof (cases "is_rational_type (item_type item)")
    case True
    from size_and_count_rational [OF vs True] have cnt: "cnt = c * 2" and sz: "sz = 4"
      by simp_all
    from double_positive [OF i(2)] pos cnt have "sint cnt = 2 * sint c" by simp
    with len sz have "length (item_value item) = nat (4 * (2 * sint c))" by simp
    also have "\<dots> \<ge> nat (4 * (2 * (i + 1)))"
      using i(1) by (intro nat_mono) simp
    finally have "nat (4 * (2 * (i + 1))) \<le> length (item_value item)" .
    moreover have "nat (4 * (2 * (i + 1))) = (2 * nat i + 2) * 4"
      using assms(2) by (simp add: nat_mult_distrib nat_add_distrib)
    ultimately show ?thesis using True by simp
  next
    case False
    from size_and_count_plain [OF vs False]
    have cnt: "cnt = c" and es: "elem_size (item_type item) = nat sz" and sz: "0 < sz"
      by simp_all
    from len cnt have "length (item_value item) = nat (sz * sint c)" by simp
    also have "\<dots> \<ge> nat (sz * (i + 1))"
      using i(1) sz by (intro nat_mono mult_left_mono) simp_all
    finally have "nat (sz * (i + 1)) \<le> length (item_value item)" .
    moreover have "nat (sz * (i + 1)) = (nat i + 1) * nat sz"
      using assms(2) sz by (simp add: nat_mult_distrib nat_add_distrib mult.commute)
    ultimately show ?thesis using False es by simp
  qed
qed

lemma checked_item:
  assumes "get_and_check_item tif dir tag i ok = (Some item, ok')"
  shows "0 \<le> dir \<and> nat dir < length (directories tif)
    \<and> (directories tif ! nat dir) tag = Some item \<and> 0 \<le> i \<and> i < item_count item \<and> ok' = ok"
  using assms
  by (auto simp: get_and_check_item_def get_item_def split: option.splits if_splits)

text \<open>
  The model \<open>_openslide_tifflike_create\<close> returns keeps the invariant, and on an item that
  keeps it every access that \<open>get_and_check_item\<close> lets through stays inside the buffer:
  element \<open>i\<close> for the plain types, elements \<open>2 * i\<close> and \<open>2 * i + 1\<close> of four bytes for the
  rational ones. So the accessors read no memory beyond the value of an item.
\<close>

theorem accessors_read_in_bounds:
  "(tifflike_create h f = Inr tif \<longrightarrow> model_ok tif)
   \<and> (model_ok tif \<and> get_and_check_item tif dir tag i ok = (Some item, ok') \<longrightarrow>
        (is_rational_type (item_type item) \<longrightarrow>
            (2 * nat i + 2) * 4 \<le> length (item_value item))
        \<and> (\<not> is_rational_type (item_type item) \<longrightarrow>
            (nat i + 1) * elem_size (item_type item) \<le> length (item_value item)))"
proof -
  have p1: "tifflike_create h f = Inr tif \<longrightarrow> model_ok tif"
    using created_model_ok by blast
  have p2: "model_ok tif \<and> get_and_check_item tif dir tag i ok = (Some item, ok') \<longrightarrow>
        (is_rational_type (item_type item) \<longrightarrow>
            (2 * nat i + 2) * 4 \<le> length (item_value item))
        \<and> (\<not> is_rational_type (item_type item) \<longrightarrow>
            (nat i + 1) * elem_size (item_type item) \<le> length (item_value item))"
  proof
    assume a: "model_ok tif \<and> get_and_check_item tif dir tag i ok = (Some item, ok')"
    then have c: "0 \<le> dir \<and> nat dir < length (directories tif)
      \<and> (directories tif ! nat dir) tag = Some item \<and> 0 \<le> i \<and> i < item_count item \<and> ok' = ok"
      by (intro checked_item) simp
    then have "item \<in> ran (directories tif ! nat dir)"
      by (auto simp: ran_def)
    moreover from c have "directories tif ! nat dir \<in> set (directories tif)"
      by simp
    ultimately have "item_ok item"
      using a by (auto simp: model_ok_def)
    with c show "(is_rational_type (item_type item) \<longrightarrow>
            (2 * nat i + 2) * 4 \<le> length (item_value item))
        \<and> (\<not> is_rational_type (item_type item) \<longrightarrow>
            (nat i + 1) * elem_size (item_type item) \<le> length (item_value item))"
      by (intro item_reads_in_bounds) simp_all
  qed
  show ?thesis by (intro conjI p1 p2)
qed

theorem accessors_read_in_bounds_witness:
  "model_ok \<lparr>directories =
              [[256 \<mapsto> \<lparr>item_type = 3, item_count = 1, item_value = [5, 0]\<rparr>]]\<rparr>
   \<and> (0 + 1) * elem_size 3 \<le> length [5, 0 :: byte]"
proof -
  let ?item = "\<lparr>item_type = 3, item_count = 1, item_value = [5, 0]\<rparr>"
  let ?tif = "\<lparr>directories = [[256 \<mapsto> ?item]]\<rparr>"
  note inst = accessors_read_in_bounds [where h = little_endian_host and f = one_short_file
      and tif = ?tif and dir = 0 and tag = 256 and i = 0 and ok = None and item = ?item
      and ok' = None]
  from inst one_short_create have ok: "model_ok ?tif" by blast
  have chk: "get_and_check_item ?tif 0 256 0 None = (Some ?item, None)"
    by (simp add: get_and_check_item_def get_item_def)
  have "\<not> is_rational_type 3"
    by (simp add: is_rational_type_def tiff_types)
  with inst ok chk have "(0 + 1) * elem_size 3 \<le> length [5, 0 :: byte]"
    by simp
  with ok show ?thesis by (intro conjI)
qed

subsection \<open>The remaining accessors and the size check on ordinary levels\<close>

lemma int_interval_1: "{0..<1 :: int} = {0}"
  by auto

text \<open>
  The level of \<open>large_strip\<close> is one strip of 6 MiB: the accumulator is disabled and nothing
  is read.
\<close>

theorem hash_ceiling_without_wrap_witness:
  "hash_tiff_level (\<lambda>offset len. True) little_endian_host
       \<lparr>enabled = True, parts = []\<rparr> large_strip 0
     = Inr \<lparr>enabled = False, parts = []\<rparr>"
proof -
  have tags: "level_offset_tag large_strip 0 = TIFFTAG_STRIPOFFSETS"
    "level_length_tag large_strip 0 = TIFFTAG_STRIPBYTECOUNTS"
    by (simp_all add: level_offset_tag_def level_length_tag_def accessor_defs large_strip_def)
  have counts: "get_value_count large_strip 0 TIFFTAG_STRIPOFFSETS = 1"
    "get_value_count large_strip 0 TIFFTAG_STRIPBYTECOUNTS = 1"
    by (simp_all add: accessor_defs large_strip_def)
  have total: "(\<Sum>j \<in> {0..<1}.
      byte_count little_endian_host large_strip 0 TIFFTAG_STRIPBYTECOUNTS j) = 6291456"
    by (simp add: int_interval_1 byte_count_def accessor_defs large_strip_def
        little_endian_host_def)
  from hash_ceiling_without_wrap [where tif = large_strip and dir = 0 and count = 1
      and h = little_endian_host and readable = "\<lambda>offset len. True"
      and hs = "\<lparr>enabled = True, parts = []\<rparr>"]
  show ?thesis
    by (simp add: tags counts total hash_disable_def)
qed

text \<open>
  \<open>get_sint\<close> accepts the four signed integer types and sign-extends the element;
  \<open>get_buffer\<close> hands out the value of Ascii and Undefined items only; \<open>get_value_count\<close>
  is the count of the item, or 0 when there is none.
\<close>

theorem signed_and_buffer_accessors:
  "get_sint h tif dir tag i ok =
     (case get_item tif dir tag of
        None \<Rightarrow> (0, clear_ok ok)
      | Some item \<Rightarrow>
          if 0 \<le> i \<and> i < item_count item
             \<and> item_type item \<in> {TIFF_SBYTE, TIFF_SSHORT, TIFF_SLONG, TIFF_SLONG8}
          then (if item_type item = TIFF_SBYTE
                then sint (of_nat (load_elem h (item_value item) 1 i) :: 8 word)
                else if item_type item = TIFF_SSHORT
                then sint (of_nat (load_elem h (item_value item) 2 i) :: 16 word)
                else if item_type item = TIFF_SLONG
                then sint (of_nat (load_elem h (item_value item) 4 i) :: 32 word)
                else sint (of_nat (load_elem h (item_value item) 8 i) :: 64 word), ok)
          else (0, clear_ok ok))
   \<and> get_buffer tif dir tag =
     (case get_item tif dir tag of
        None \<Rightarrow> None
      | Some item \<Rightarrow>
          if item_type item \<in> {TIFF_ASCII, TIFF_UNDEFINED} then Some (item_value item)
          else None)
   \<and> get_value_count tif dir tag =
     (case get_item tif dir tag of None \<Rightarrow> 0 | Some item \<Rightarrow> item_count item)"
  by (auto simp: get_sint_def get_buffer_def get_value_count_def get_and_check_item_def
      tiff_types clear_ok_def split: option.splits)

theorem signed_and_buffer_accessors_witness:
  "get_sint little_endian_host two_rationals 0 282 0 (Some True) = (0, Some False)
   \<and> get_buffer two_shorts 0 256 = None
   \<and> get_value_count two_shorts 0 256 = 2"
  using signed_and_buffer_accessors [of little_endian_host two_rationals 0 282 0 "Some True"]
    signed_and_buffer_accessors [of little_endian_host two_shorts 0 256 0 "Some True"]
  by (simp add: get_item_def two_rationals_def two_shorts_def tiff_types clear_ok_def)

subsection \<open>Floating-point values\<close>





















subsection \<open>Memory\<close>

text \<open>
  Each function with the heap returns what the function without it returns, and changes
  the heap by what the result owns. The lemmas follow the calls from \<open>read_tiff_value\<close>
  up to \<open>_openslide_tifflike_create\<close>.
\<close>

lemmas heap_ops = g_try_malloc_value_def g_free_value_def g_slice_new_item_def
  g_slice_free_item_def tiff_item_destroy_def add_items_def add_keys_def

lemma read_tiff_value_mem_result:
  "read_tiff_value_mem h f sz cnt offset val value_len be hp
     = (read_tiff_value h f sz cnt offset val value_len be,
        if read_tiff_value h f sz cnt offset val value_len be = None then hp
        else g_try_malloc_value hp)"
  by (simp add: read_tiff_value_mem_def read_tiff_value_def Let_def heap_ops
      split: prod.splits bool.splits option.splits)

lemma read_directory_entry_mem_result:
  "read_directory_entry_mem h f bt be hp
     = (read_directory_entry h f bt be,
        case read_directory_entry h f bt be of
          Inl e \<Rightarrow> if leaks_item e then g_slice_new_item hp else hp
        | Inr r \<Rightarrow> g_try_malloc_value (g_slice_new_item hp))"
  by (simp add: read_directory_entry_mem_def read_directory_entry_def Let_def
      read_tiff_value_mem_result leaks_item_def
      split: prod.splits option.splits)


lemma insert_keeps_items:
  assumes "finite (dom d)"
  shows "directory_insert d tag (g_try_malloc_value (g_slice_new_item (add_items (card (dom d)) base)))
    = add_items (card (dom (d(tag \<mapsto> item)))) base"
proof (cases "tag \<in> dom d")
  case True
  then have "insert tag (dom d) = dom d" by auto
  with True show ?thesis
    by (simp add: directory_insert_def heap_ops)
next
  case False
  with assms have "card (insert tag (dom d)) = Suc (card (dom d))" by simp
  with False show ?thesis
    by (simp add: directory_insert_def heap_ops)
qed

lemma entries_mem_result:
  assumes "finite (dom d)"
  shows "\<exists>r d'. read_directory_entries_mem h bt be n f d (add_items (card (dom d)) base)
        = (r, d', add_items (card (dom d'))
                    (case r of
                       Inl e \<Rightarrow> if leaks_item e then g_slice_new_item base else base
                     | Inr f' \<Rightarrow> base))
      \<and> finite (dom d')
      \<and> read_directory_entries h bt be n f d
          = (case r of Inl e \<Rightarrow> Inl e | Inr f' \<Rightarrow> Inr (d', f'))"
  using assms
proof (induction n arbitrary: f d)
  case 0
  then show ?case by simp
next
  case (Suc n)
  show ?case
  proof (cases "read_directory_entry h f bt be")
    case (Inl e)
    have "(if leaks_item e then g_slice_new_item (add_items (card (dom d)) base)
           else add_items (card (dom d)) base)
        = add_items (card (dom d)) (if leaks_item e then g_slice_new_item base else base)"
      by (simp add: heap_ops)
    with Inl Suc.prems show ?thesis
      by (intro exI [of _ "Inl e"] exI [of _ d])
         (simp add: read_directory_entry_mem_result)
  next
    case (Inr x)
    obtain tag item f1 where x: "x = (tag, item, f1)" by (cases x) auto
    from Suc.prems have fin: "finite (dom (d(tag \<mapsto> item)))" by simp
    from Suc.IH [OF fin, of f1] obtain r d' where
      ih: "read_directory_entries_mem h bt be n f1 (d(tag \<mapsto> item))
            (add_items (card (dom (d(tag \<mapsto> item)))) base)
        = (r, d', add_items (card (dom d'))
                    (case r of
                       Inl e \<Rightarrow> if leaks_item e then g_slice_new_item base else base
                     | Inr f' \<Rightarrow> base))"
      and fin': "finite (dom d')"
      and val: "read_directory_entries h bt be n f1 (d(tag \<mapsto> item))
          = (case r of Inl e \<Rightarrow> Inl e | Inr f' \<Rightarrow> Inr (d', f'))"
      by blast
    have "read_directory_entries_mem h bt be (Suc n) f d (add_items (card (dom d)) base)
        = read_directory_entries_mem h bt be n f1 (d(tag \<mapsto> item))
            (add_items (card (dom (d(tag \<mapsto> item)))) base)"
      using Inr x insert_keeps_items [OF Suc.prems, of tag base item]
      by (simp add: read_directory_entry_mem_result)
    with ih fin' val Inr x show ?thesis
      by (intro exI [of _ r] exI [of _ d']) simp
  qed
qed

lemma destroy_items: "(tiff_item_destroy ^^ k) (add_items k hp) = hp"
proof (induction k)
  case 0
  show ?case by (simp add: heap_ops)
next
  case (Suc k)
  have "(tiff_item_destroy ^^ Suc k) (add_items (Suc k) hp)
      = (tiff_item_destroy ^^ k) (tiff_item_destroy (add_items (Suc k) hp))"
    by (simp add: funpow_swap1)
  also have "tiff_item_destroy (add_items (Suc k) hp) = add_items k hp"
    by (simp add: heap_ops)
  finally show ?case using Suc by simp
qed


lemma add_items_0: "add_items 0 hp = hp"
  by (simp add: add_items_def)

lemma leaks_item_simps:
  "\<not> leaks_item (Error BAD_DATA ''Bad offset'' [])"
  "\<not> leaks_item (Error BAD_DATA ''Loop detected'' [])"
  "\<not> leaks_item (Error IO_ERROR ''Cannot seek to offset'' [])"
  "\<not> leaks_item (Error BAD_DATA ''Cannot read dircount'' [])"
  "\<not> leaks_item (Error BAD_DATA ''Cannot read next directory offset'' [])"
  "\<not> leaks_item (Error BAD_DATA ''TIFF contains no directories'' [])"
  by (simp_all add: leaks_item_def)

lemma directory_mem_result:
  assumes "finite ld"
  shows "\<exists>r ld'. read_directory_mem h f off ld bt be (add_keys (card ld) base)
        = (r, ld', add_keys (card ld')
                     (case r of
                        Inl e \<Rightarrow> if leaks_item e then g_slice_new_item base else base
                      | Inr (d, off', f') \<Rightarrow> add_directories [d] base))
      \<and> finite ld'
      \<and> read_directory h f off ld bt be
          = (case r of Inl e \<Rightarrow> Inl e | Inr (d, off', f') \<Rightarrow> Inr (d, off', f', ld'))"
proof -
  consider (bad) "sint off \<le> 0" | (loop) "0 < sint off" "off \<in> ld"
    | (new) "0 < sint off" "off \<notin> ld"
    by linarith
  then show ?thesis
  proof cases
    case bad
    with assms show ?thesis
      by (intro exI [of _ "Inl (Error BAD_DATA ''Bad offset'' [])"] exI [of _ ld])
         (simp add: read_directory_mem_def read_directory_def leaks_item_simps)
  next
    case loop
    with assms show ?thesis
      by (intro exI [of _ "Inl (Error BAD_DATA ''Loop detected'' [])"] exI [of _ ld])
         (simp add: read_directory_mem_def read_directory_def leaks_item_simps)
  next
    case new
    let ?ld = "insert off ld"
    have fin: "finite ?ld" and card: "card ?ld = Suc (card ld)"
      using assms new by simp_all
    let ?hp1 = "add_keys (card ?ld) base"
    have hp1: "(add_keys (card ld) base)\<lparr>offset_keys := offset_keys (add_keys (card ld) base) + 1\<rparr>
        = ?hp1"
      by (simp add: card add_keys_def)
    show ?thesis
    proof (cases "fseeko f (sint off)")
      case (Pair sk f1)
      show ?thesis
      proof (cases sk)
        case False
        with Pair new fin show ?thesis
          by (intro exI [of _ "Inl (Error IO_ERROR ''Cannot seek to offset'' [])"]
              exI [of _ ?ld])
             (simp add: read_directory_mem_def read_directory_def leaks_item_simps add_keys_def card Let_def)
      next
        case True
        obtain dircount ok f2 where r: "read_uint h f1 (if bt then 8 else 2) be True
            = (dircount, ok, f2)"
          by (cases "read_uint h f1 (if bt then 8 else 2) be True") auto
        show ?thesis
        proof (cases ok)
          case False
          with Pair True r new fin show ?thesis
            by (intro exI [of _ "Inl (Error BAD_DATA ''Cannot read dircount'' [])"]
                exI [of _ ?ld])
               (simp add: read_directory_mem_def read_directory_def leaks_item_simps add_keys_def card Let_def)
        next
          case ok: True
          let ?hp2 = "?hp1\<lparr>directory_tables := directory_tables ?hp1 + 1\<rparr>"
          from entries_mem_result [of Map.empty h bt be "unat dircount" f2 ?hp2]
          obtain er d' where
            em: "read_directory_entries_mem h bt be (unat dircount) f2 Map.empty ?hp2
              = (er, d', add_items (card (dom d'))
                    (case er of
                       Inl e \<Rightarrow> if leaks_item e then g_slice_new_item ?hp2 else ?hp2
                     | Inr f' \<Rightarrow> ?hp2))"
            and ev: "read_directory_entries h bt be (unat dircount) f2 Map.empty
              = (case er of Inl e \<Rightarrow> Inl e | Inr f' \<Rightarrow> Inr (d', f'))"
            by (auto simp: add_items_0)
          have unref: "directory_unref d' (add_items (card (dom d')) X)
              = X\<lparr>directory_tables := directory_tables X - 1\<rparr>" for X
            by (simp add: directory_unref_def destroy_items)
          show ?thesis
          proof (cases er)
            case (Inl e)
            let ?X = "if leaks_item e then g_slice_new_item ?hp2 else ?hp2"
            have "directory_unref d' (add_items (card (dom d')) ?X)
                = ?X\<lparr>directory_tables := directory_tables ?X - 1\<rparr>"
              by (rule unref)
            also have "\<dots> = add_keys (card ?ld)
                (if leaks_item e then g_slice_new_item base else base)"
              by (simp add: heap_ops)
            finally have "directory_unref d' (add_items (card (dom d'))
                    (if leaks_item e then g_slice_new_item ?hp2 else ?hp2))
                = add_keys (card ?ld) (if leaks_item e then g_slice_new_item base else base)" .
            with Pair True r ok em ev Inl new fin show ?thesis
              by (intro exI [of _ "Inl e"] exI [of _ ?ld])
                 (simp add: read_directory_mem_def read_directory_def add_keys_def card Let_def)
          next
            case (Inr f3)
            obtain nx ok' f4 where r4: "read_uint h f3 (if bt then 8 else 4) be True
                = (nx, ok', f4)"
              by (cases "read_uint h f3 (if bt then 8 else 4) be True") auto
            show ?thesis
            proof (cases ok')
              case False
              have "directory_unref d' (add_items (card (dom d')) ?hp2)
                  = ?hp2\<lparr>directory_tables := directory_tables ?hp2 - 1\<rparr>"
                by (rule unref)
              also have "\<dots> = add_keys (card ?ld) base"
                by (simp add: heap_ops)
              finally have "directory_unref d' (add_items (card (dom d')) ?hp2)
                  = add_keys (card ?ld) base" .
              with Pair True r ok em ev Inr r4 False new fin show ?thesis
                by (intro exI [of _ "Inl (Error BAD_DATA ''Cannot read next directory offset'' [])"]
                    exI [of _ ?ld])
                   (simp add: read_directory_mem_def read_directory_def add_keys_def card Let_def
                      leaks_item_simps)
            next
              case ok'': True
              have "add_items (card (dom d')) ?hp2
                  = add_keys (card ?ld) (add_directories [d'] base)"
                by (simp add: heap_ops add_directories_def)
              with Pair True r ok em ev Inr r4 ok'' new fin show ?thesis
                by (intro exI [of _ "Inr (d', nx, f4)"] exI [of _ ?ld])
                   (simp add: read_directory_mem_def read_directory_def add_keys_def card Let_def)
            qed
          qed
        qed
      qed
    qed
  qed
qed


lemma add_directories_append:
  "add_directories [d] (add_directories dirs base) = add_directories (dirs @ [d]) base"
  by (simp add: add_directories_def add_items_def)

lemma add_directories_leak:
  "(if c then g_slice_new_item (add_directories dirs base) else add_directories dirs base)
     = add_directories dirs (if c then g_slice_new_item base else base)"
  by (simp add: add_directories_def add_items_def g_slice_new_item_def)

lemma directories_mem_result:
  assumes "finite ld"
  shows "\<exists>r dirs' ld'.
      read_directories_mem h f off ld bt be dirs (add_keys (card ld) (add_directories dirs base))
        = (r, dirs', ld',
           add_keys (card ld')
             (add_directories dirs'
                (case r of
                   Inl e \<Rightarrow> if leaks_item e then g_slice_new_item base else base
                 | Inr f' \<Rightarrow> base)))
      \<and> finite ld'
      \<and> read_directories h f off ld bt be dirs
          = (case r of Inl e \<Rightarrow> Inl e | Inr f' \<Rightarrow> Inr (dirs', ld', f'))"
  using assms
proof (induction h f off ld bt be dirs rule: read_directories.induct)
  case (1 h f diroff loop_detector bigtiff big_endian dirs)
  note val = read_directories.simps [of h f diroff loop_detector bigtiff big_endian dirs]
  note mem = read_directories_mem.simps [of h f diroff loop_detector bigtiff big_endian dirs]
  show ?case
  proof (cases "diroff = 0")
    case True
    with "1.prems" show ?thesis
      by (intro exI [of _ "Inr f"] exI [of _ dirs] exI [of _ loop_detector])
         (simp add: read_directories.simps [of _ _ 0] read_directories_mem.simps [of _ _ 0])
  next
    case False
    from directory_mem_result [OF "1.prems", of h f diroff bigtiff big_endian
        "add_directories dirs base"]
    obtain r ld' where
      dm: "read_directory_mem h f diroff loop_detector bigtiff big_endian
            (add_keys (card loop_detector) (add_directories dirs base))
        = (r, ld', add_keys (card ld')
                     (case r of
                        Inl e \<Rightarrow> if leaks_item e
                                 then g_slice_new_item (add_directories dirs base)
                                 else add_directories dirs base
                      | Inr (d, off', f') \<Rightarrow> add_directories [d] (add_directories dirs base)))"
      and fin: "finite ld'"
      and dv: "read_directory h f diroff loop_detector bigtiff big_endian
          = (case r of Inl e \<Rightarrow> Inl e | Inr (d, off', f') \<Rightarrow> Inr (d, off', f', ld'))"
      by blast
    show ?thesis
    proof (cases r)
      case (Inl e)
      with dm dv fin False show ?thesis
        by (intro exI [of _ "Inl e"] exI [of _ dirs] exI [of _ ld'])
           (simp add: val mem add_directories_leak)
    next
      case (Inr x)
      obtain ht diroff' f' where x: "x = (ht, diroff', f')" by (cases x) auto
      from dv Inr x have rd: "read_directory h f diroff loop_detector bigtiff big_endian
          = Inr (ht, diroff', f', ld')"
        by simp
      from "1.IH" [OF False rd refl refl refl fin]
      obtain r2 dirs2 ld2 where
        ih: "read_directories_mem h f' diroff' ld' bigtiff big_endian (dirs @ [ht])
              (add_keys (card ld') (add_directories (dirs @ [ht]) base))
          = (r2, dirs2, ld2,
             add_keys (card ld2)
               (add_directories dirs2
                  (case r2 of
                     Inl e \<Rightarrow> if leaks_item e then g_slice_new_item base else base
                   | Inr f' \<Rightarrow> base)))"
        and fin2: "finite ld2"
        and v2: "read_directories h f' diroff' ld' bigtiff big_endian (dirs @ [ht])
            = (case r2 of Inl e \<Rightarrow> Inl e | Inr f' \<Rightarrow> Inr (dirs2, ld2, f'))"
        by blast
      from dm Inr x ih False
      have "read_directories_mem h f diroff loop_detector bigtiff big_endian dirs
            (add_keys (card loop_detector) (add_directories dirs base))
          = (r2, dirs2, ld2,
             add_keys (card ld2)
               (add_directories dirs2
                  (case r2 of
                     Inl e \<Rightarrow> if leaks_item e then g_slice_new_item base else base
                   | Inr f' \<Rightarrow> base)))"
        by (simp add: mem add_directories_append)
      moreover from rd v2 False
      have "read_directories h f diroff loop_detector bigtiff big_endian dirs
          = (case r2 of Inl e \<Rightarrow> Inl e | Inr f' \<Rightarrow> Inr (dirs2, ld2, f'))"
        by (simp add: val)
      ultimately show ?thesis using fin2 by blast
    qed
  qed
qed


lemma add_directories_Cons:
  "add_directories (d # ds) hp
     = add_items (card (dom d))
         ((add_directories ds hp)\<lparr>directory_tables := directory_tables (add_directories ds hp) + 1\<rparr>)"
  by (simp add: add_directories_def add_items_def)

lemma destroy_directories: "fold directory_unref dirs (add_directories dirs hp) = hp"
proof (induction dirs arbitrary: hp)
  case Nil
  show ?case by (simp add: add_directories_def add_items_def)
next
  case (Cons d ds)
  let ?X = "(add_directories ds hp)\<lparr>directory_tables := directory_tables (add_directories ds hp) + 1\<rparr>"
  have "directory_unref d (add_directories (d # ds) hp) = ?X\<lparr>directory_tables := directory_tables ?X - 1\<rparr>"
    unfolding add_directories_Cons by (simp add: directory_unref_def destroy_items)
  also have "\<dots> = add_directories ds hp" by simp
  finally show ?case using Cons.IH [of hp] by simp
qed

lemma add_keys_directories:
  "add_keys k (add_directories dirs hp) = add_directories dirs (add_keys k hp)"
  by (simp add: add_directories_def add_items_def add_keys_def)

lemma create_mem_result:
  "tifflike_create_mem h f hp
     = (tifflike_create h f,
        case tifflike_create h f of
          Inl e \<Rightarrow> if leaks_item e then g_slice_new_item hp else hp
        | Inr tif \<Rightarrow> model_blocks tif hp)"
proof (cases "tifflike_header h f")
  case (Inl e)
  then obtain msg where "e = Error FORMAT_NOT_SUPPORTED msg []"
    using header_errors by blast
  moreover from this Inl have "\<not> leaks_item e"
    by (auto simp: leaks_item_def tifflike_header_def Let_def
        split: prod.splits option.splits if_splits)
  ultimately show ?thesis
    using Inl by (simp add: tifflike_create_mem_def tifflike_create_def)
next
  case (Inr x)
  obtain be bt off f1 where x: "x = (be, bt, off, f1)" by (cases x) auto
  define hp2 where "hp2 = hp\<lparr>tifflike_structs := tifflike_structs hp + 1,
      directory_arrays := directory_arrays hp + 1,
      loop_detectors := loop_detectors hp + 1\<rparr>"
  have start: "add_keys 0 (add_directories [] hp2) = hp2"
    by (simp add: add_keys_def add_directories_def add_items_def)
  from directories_mem_result [of "{}" h f1 off bt be "[]" hp2]
  obtain r dirs ld where
    dm: "read_directories_mem h f1 off {} bt be [] hp2
        = (r, dirs, ld,
           add_keys (card ld)
             (add_directories dirs
                (case r of
                   Inl e \<Rightarrow> if leaks_item e then g_slice_new_item hp2 else hp2
                 | Inr f' \<Rightarrow> hp2)))"
    and dv: "read_directories h f1 off {} bt be []
        = (case r of Inl e \<Rightarrow> Inl e | Inr f' \<Rightarrow> Inr (dirs, ld, f'))"
    by (auto simp: start)
  have unfold: "tifflike_create_mem h f hp
      = (case read_directories_mem h f1 off {} bt be [] hp2 of
           (Inl e, dirs, loop_detector, hp3) \<Rightarrow>
             (Inl e, loop_detector_unref loop_detector (tifflike_destroy dirs hp3))
         | (Inr f2, dirs, loop_detector, hp3) \<Rightarrow>
             if length dirs = 0
             then (Inl (Error BAD_DATA ''TIFF contains no directories'' []),
                   loop_detector_unref loop_detector (tifflike_destroy dirs hp3))
             else (Inr \<lparr>directories = dirs\<rparr>, loop_detector_unref loop_detector hp3))"
    using Inr x by (simp add: tifflike_create_mem_def Let_def hp2_def)
  have cleanup: "loop_detector_unref ld (tifflike_destroy dirs
        (add_keys (card ld) (add_directories dirs X)))
      = X\<lparr>directory_arrays := directory_arrays X - 1,
           tifflike_structs := tifflike_structs X - 1,
           loop_detectors := loop_detectors X - 1\<rparr>" for X
  proof -
    have "fold directory_unref dirs (add_keys (card ld) (add_directories dirs X))
        = add_keys (card ld) X"
      by (simp only: add_keys_directories destroy_directories)
    then have "tifflike_destroy dirs (add_keys (card ld) (add_directories dirs X))
        = (add_keys (card ld) X)\<lparr>directory_arrays := directory_arrays (add_keys (card ld) X) - 1,
             tifflike_structs := tifflike_structs (add_keys (card ld) X) - 1\<rparr>"
      by (simp only: tifflike_destroy_def Let_def)
    then show ?thesis
      by (simp add: loop_detector_unref_def add_keys_def)
  qed
  show ?thesis
  proof (cases r)
    case e: (Inl e)
    have "(let X = (if leaks_item e then g_slice_new_item hp2 else hp2)
           in X\<lparr>directory_arrays := directory_arrays X - 1,
                 tifflike_structs := tifflike_structs X - 1,
                 loop_detectors := loop_detectors X - 1\<rparr>)
        = (if leaks_item e then g_slice_new_item hp else hp)"
      by (simp add: hp2_def g_slice_new_item_def Let_def)
    with dm dv e Inr x show ?thesis
      by (simp add: unfold cleanup tifflike_create_def Let_def)
  next
    case f2: (Inr f2)
    show ?thesis
    proof (cases "length dirs = 0")
      case True
      then have empty: "dirs = []" by simp
      have undo: "hp2\<lparr>directory_arrays := directory_arrays hp2 - 1,
               tifflike_structs := tifflike_structs hp2 - 1,
               loop_detectors := loop_detectors hp2 - 1\<rparr> = hp"
        by (simp add: hp2_def)
      have "loop_detector_unref ld (tifflike_destroy dirs
          (add_keys (card ld) (add_directories dirs hp2))) = hp"
        by (simp only: cleanup undo)
      with dm dv f2 Inr x empty show ?thesis
        by (simp add: unfold tifflike_create_def leaks_item_simps)
    next
      case False
      have "loop_detector_unref ld (add_keys (card ld) (add_directories dirs hp2))
          = model_blocks \<lparr>directories = dirs\<rparr> hp"
        by (simp add: loop_detector_unref_def add_keys_def add_directories_def add_items_def
            model_blocks_def hp2_def Let_def)
      with dm dv f2 Inr x False show ?thesis
        by (simp add: unfold tifflike_create_def)
    qed
  qed
qed


lemma bad_second_create:
  "tifflike_create little_endian_host bad_second_directory_file
     = Inl (Error BAD_DATA ''Unknown type encountered: %d'' [99])"
proof -
  have "read_directories little_endian_host (bad_second_directory_file\<lparr>pos := 26\<rparr>) 26 {8}
      False False ([] @ [[256 \<mapsto> \<lparr>item_type = 3, item_count = 1, item_value = [5, 0]\<rparr>]])
      = Inl (Error BAD_DATA ''Unknown type encountered: %d'' [99])"
    using bad_second_second by (intro read_directories_failure) simp_all
  with reaches_continue [OF bad_second_reaches, of "[]"] show ?thesis
    by (simp add: tifflike_create_def bad_second_header)
qed

lemma zero_count_create:
  "tifflike_create little_endian_host zero_count_file
     = Inl (Error BAD_DATA ''Cannot read value'' [])"
proof -
  have hd: "tifflike_header little_endian_host zero_count_file
      = Inr (False, False, 8, zero_count_file\<lparr>pos := 8\<rparr>)"
    by (simp add: eval_defs zero_count_file_def)
  have "read_directory little_endian_host (zero_count_file\<lparr>pos := 8\<rparr>) 8 {} False False
      = Inl (Error BAD_DATA ''Cannot read value'' [])"
    by (simp add: eval_defs zero_count_file_def)
  then have "read_directories little_endian_host (zero_count_file\<lparr>pos := 8\<rparr>) 8 {} False False []
      = Inl (Error BAD_DATA ''Cannot read value'' [])"
    by (intro read_directories_failure) simp_all
  with hd show ?thesis by (simp add: tifflike_create_def)
qed

lemma cycle_create:
  "tifflike_create big_endian_host cycle_file = Inl (Error BAD_DATA ''Loop detected'' [])"
proof -
  have "read_directory big_endian_host (cycle_file\<lparr>pos := 20\<rparr>) 8 {14, 8} False True
      = Inl (Error BAD_DATA ''Loop detected'' [])"
    by (intro read_directory_loop) simp_all
  then have "read_directories big_endian_host (cycle_file\<lparr>pos := 20\<rparr>) 8 {14, 8} False True
      ([] @ [Map.empty, Map.empty]) = Inl (Error BAD_DATA ''Loop detected'' [])"
    by (intro read_directories_failure) simp_all
  with reaches_continue [OF cycle_reaches, of "[]"] show ?thesis
    by (simp add: tifflike_create_def cycle_header)
qed

lemma unseekable_create:
  "tifflike_create little_endian_host unseekable_file
     = Inl (Error IO_ERROR ''Cannot seek to offset'' [])"
proof -
  have hd: "tifflike_header little_endian_host unseekable_file
      = Inr (False, True, 2 ^ 50, unseekable_file\<lparr>pos := 16\<rparr>)"
    by (simp add: eval_defs unseekable_file_def)
  have "read_directory little_endian_host (unseekable_file\<lparr>pos := 16\<rparr>) (2 ^ 50) {} True False
      = Inl (Error IO_ERROR ''Cannot seek to offset'' [])"
    by (simp add: eval_defs unseekable_file_def)
  then have "read_directories little_endian_host (unseekable_file\<lparr>pos := 16\<rparr>) (2 ^ 50) {}
      True False [] = Inl (Error IO_ERROR ''Cannot seek to offset'' [])"
    by (intro read_directories_failure) simp_all
  with hd show ?thesis by (simp add: tifflike_create_def)
qed

text \<open>
  C1. The claim fails on \<open>bad_second_directory_file\<close> and on \<open>zero_count_file\<close>. The first
  has a directory that parses, with one item, and then a directory whose entry has the
  unknown type 99; the second has an entry with the count 0, whose value
  \<open>read_tiff_value\<close> refuses to read. In both cases \<open>_openslide_tifflike_create\<close> returns the
  error and no model, and frees the directory, the item and the value read before, the
  table of the directory that failed, the array, the loop detector with its keys and the
  struct of the model. What it does not free is the struct of the item that was being
  read: \<open>read_directory\<close> allocates it before the \<open>switch\<close> on the type and puts it into the
  table after \<open>read_tiff_value\<close>, and the two \<open>goto FAIL\<close> between these leave with the
  struct in no table, where \<open>FAIL\<close> frees only what the table holds. Starting from a heap
  with nothing allocated, one struct of an item is left allocated.
\<close>

theorem create_leaks_item:
  "tifflike_create_mem little_endian_host bad_second_directory_file empty_heap
     = (Inl (Error BAD_DATA ''Unknown type encountered: %d'' [99]),
        \<lparr>tifflike_structs = 0, directory_arrays = 0, loop_detectors = 0, offset_keys = 0,
         directory_tables = 0, item_structs = 1, value_buffers = 0\<rparr>)
   \<and> tifflike_create_mem little_endian_host zero_count_file empty_heap
     = (Inl (Error BAD_DATA ''Cannot read value'' []),
        \<lparr>tifflike_structs = 0, directory_arrays = 0, loop_detectors = 0, offset_keys = 0,
         directory_tables = 0, item_structs = 1, value_buffers = 0\<rparr>)"
  by (simp add: create_mem_result bad_second_create zero_count_create leaks_item_def
      g_slice_new_item_def empty_heap_def)

text \<open>
  \<open>_openslide_tifflike_create\<close> with the heap returns what it returns without, and leaves
  the heap as follows. After any failure other than an unknown type or a value that
  cannot be read, the heap is the one before the call: what was allocated for the
  directories read so far, for the directory that failed, for the loop detector and for
  the model is freed. After these two failures it is the heap before the call and the
  struct of one item. After a success it is the heap before the call and what the model
  owns: its struct, its array, and for every directory its table and for every entry of
  the table one struct and one value.
\<close>

theorem create_releases:
  "fst (tifflike_create_mem h f hp) = tifflike_create h f
   \<and> (tifflike_create h f = Inl e \<and> \<not> leaks_item e \<longrightarrow>
        snd (tifflike_create_mem h f hp) = hp)
   \<and> (tifflike_create h f = Inl e \<and> leaks_item e \<longrightarrow>
        snd (tifflike_create_mem h f hp) = g_slice_new_item hp)
   \<and> (tifflike_create h f = Inr tif \<longrightarrow>
        snd (tifflike_create_mem h f hp) = model_blocks tif hp)"
  by (simp add: create_mem_result)

theorem create_releases_witness:
  "tifflike_create_mem big_endian_host cycle_file empty_heap
     = (Inl (Error BAD_DATA ''Loop detected'' []), empty_heap)
   \<and> tifflike_create_mem little_endian_host unseekable_file empty_heap
     = (Inl (Error IO_ERROR ''Cannot seek to offset'' []), empty_heap)
   \<and> tifflike_create_mem little_endian_host one_short_file empty_heap
     = (Inr \<lparr>directories =
               [[256 \<mapsto> \<lparr>item_type = 3, item_count = 1, item_value = [5, 0]\<rparr>]]\<rparr>,
        \<lparr>tifflike_structs = 1, directory_arrays = 1, loop_detectors = 0, offset_keys = 0,
         directory_tables = 1, item_structs = 1, value_buffers = 1\<rparr>)"
proof -
  let ?tif = "\<lparr>directories =
               [[256 \<mapsto> \<lparr>item_type = 3, item_count = 1, item_value = [5, 0]\<rparr>]]\<rparr>"
  note a = create_releases [where h = big_endian_host and f = cycle_file and hp = empty_heap
      and e = "Error BAD_DATA ''Loop detected'' []"]
  note b = create_releases [where h = little_endian_host and f = one_short_file
      and hp = empty_heap and tif = ?tif]
  have "fst (tifflike_create_mem big_endian_host cycle_file empty_heap)
        = Inl (Error BAD_DATA ''Loop detected'' [])
      \<and> snd (tifflike_create_mem big_endian_host cycle_file empty_heap) = empty_heap"
    using a by (simp add: cycle_create leaks_item_def)
  moreover have "fst (tifflike_create_mem little_endian_host unseekable_file empty_heap)
        = Inl (Error IO_ERROR ''Cannot seek to offset'' [])
      \<and> snd (tifflike_create_mem little_endian_host unseekable_file empty_heap) = empty_heap"
    using create_releases [where h = little_endian_host and f = unseekable_file
        and hp = empty_heap and e = "Error IO_ERROR ''Cannot seek to offset'' []"]
    by (simp add: unseekable_create leaks_item_def)
  moreover have "fst (tifflike_create_mem little_endian_host one_short_file empty_heap)
        = Inr ?tif
      \<and> snd (tifflike_create_mem little_endian_host one_short_file empty_heap)
        = \<lparr>tifflike_structs = 1, directory_arrays = 1, loop_detectors = 0, offset_keys = 0,
           directory_tables = 1, item_structs = 1, value_buffers = 1\<rparr>"
    using b
    by (simp add: one_short_create model_blocks_def add_directories_def add_items_def
        empty_heap_def Let_def)
  ultimately show ?thesis
    by (simp add: prod_eq_iff)
qed

end
